theory Spec2Isabelle
  imports Main "HOL-Library.Word"
begin

unbundle bit_operations_syntax

section \<open>The virtual GICv3 of the arm64 hypervisor (sys/arm64/vmm/io)\<close>

text \<open>
  A shallow embedding of \<^verbatim>\<open>vgic_v3.c\<close> and of the parts of \<^verbatim>\<open>vtimer.c\<close> that call
  into it. C structs are records, fixed-width integers are words, the spin mutexes are
  left out (every function below runs as one atomic step), and a \<^verbatim>\<open>panic()\<close> or a failed
  \<^verbatim>\<open>KASSERT\<close> is a value of its own.
\<close>

type_synonym u8 = "8 word"
type_synonym u32 = "32 word"
type_synonym u64 = "64 word"

subsection \<open>Outcomes of a kernel function\<close>

text \<open>
  \<open>Hang\<close>: the call never returns (a retry loop that never succeeds).
  \<open>Panic msg\<close>: the kernel halted in \<^verbatim>\<open>panic()\<close> or in a \<^verbatim>\<open>KASSERT\<close>
  (the model is that of a kernel built with assertions compiled in).
  \<open>Return x\<close>: the call returned \<open>x\<close>.
\<close>

datatype 'a outcome = Hang | Panic string | Return 'a

subsection \<open>Constants of headers included by the source\<close>

text \<open>
  The register layouts and ID ranges below are macros of headers that the source includes
  and that are not among the sources (\<^verbatim>\<open>arm/arm/gic_common.h\<close>,
  \<^verbatim>\<open>arm64/arm64/gic_v3_reg.h\<close>, \<^verbatim>\<open>vgic_v3_reg.h\<close>, \<^verbatim>\<open>machine/armreg.h\<close>).
  Their values are those the GICv3 architecture fixes for these registers. The general
  theorems below use them by name only, except for the fact that clearing the state field
  of a list register leaves it inactive.

  Interrupt ID ranges of \<^verbatim>\<open>arm/arm/gic_common.h\<close>: SGIs are 0..15, PPIs 16..31,
  SPIs 32..1019.
\<close>

definition GIC_LAST_SGI :: u32 where "GIC_LAST_SGI = 15"
definition GIC_LAST_PPI :: u32 where "GIC_LAST_PPI = 31"
definition GIC_LAST_SPI :: u32 where "GIC_LAST_SPI = 1019"

definition IRQBUF_SIZE_MIN :: nat where "IRQBUF_SIZE_MIN = 32"
definition IRQBUF_SIZE_MAX :: nat where "IRQBUF_SIZE_MAX = 2 ^ 10"

definition IRQ_SCHEDULED :: u32 where "IRQ_SCHEDULED = GIC_LAST_SPI + 1"

text \<open>
  The list register \<^verbatim>\<open>ICH_LR<n>_EL2\<close> (\<^verbatim>\<open>gic_v3_reg.h\<close>): virtual interrupt ID in
  bits 31..0, priority in bits 55..48, group in bit 60, state in bits 63..62
  (0 inactive, 1 pending, 2 active, 3 pending and active).
\<close>

definition ICH_LR_EL2_VINTID :: "u64 \<Rightarrow> u64" where
  "ICH_LR_EL2_VINTID lr = lr AND 0xffffffff"

definition ICH_LR_EL2_PRIO_SHIFT :: nat where "ICH_LR_EL2_PRIO_SHIFT = 48"
definition ICH_LR_EL2_PRIO_MASK :: u64 where
  "ICH_LR_EL2_PRIO_MASK = push_bit ICH_LR_EL2_PRIO_SHIFT 0xff"
definition ICH_LR_EL2_GROUP_SHIFT :: nat where "ICH_LR_EL2_GROUP_SHIFT = 60"
definition ICH_LR_EL2_STATE_SHIFT :: nat where "ICH_LR_EL2_STATE_SHIFT = 62"
definition ICH_LR_EL2_STATE_MASK :: u64 where
  "ICH_LR_EL2_STATE_MASK = push_bit ICH_LR_EL2_STATE_SHIFT 3"
definition ICH_LR_EL2_STATE :: "u64 \<Rightarrow> u64" where
  "ICH_LR_EL2_STATE lr = lr AND ICH_LR_EL2_STATE_MASK"
definition ICH_LR_EL2_STATE_INACTIVE :: u64 where
  "ICH_LR_EL2_STATE_INACTIVE = push_bit ICH_LR_EL2_STATE_SHIFT 0"
definition ICH_LR_EL2_STATE_PENDING :: u64 where
  "ICH_LR_EL2_STATE_PENDING = push_bit ICH_LR_EL2_STATE_SHIFT 1"
definition ICH_LR_EL2_STATE_ACTIVE :: u64 where
  "ICH_LR_EL2_STATE_ACTIVE = push_bit ICH_LR_EL2_STATE_SHIFT 2"
definition ICH_LR_EL2_STATE_PENDING_ACTIVE :: u64 where
  "ICH_LR_EL2_STATE_PENDING_ACTIVE = push_bit ICH_LR_EL2_STATE_SHIFT 3"

text \<open>
  \<^verbatim>\<open>ICH_VMCR_EL2\<close>: group enables in bits 0 and 1, priority mask in bits 31..24.
  \<^verbatim>\<open>GICD_CTLR\<close>: group enables in bits 0 and 1, affinity routing enable in bit 4.
  \<^verbatim>\<open>GICD_IROUTER\<close>: interrupt routing mode (1 of N) in bit 31.
  \<^verbatim>\<open>GICR_CTLR\<close>: the DPG0 and DPG1NS bits are 24 and 25.
\<close>

definition ICH_VMCR_EL2_VENG0 :: u32 where "ICH_VMCR_EL2_VENG0 = push_bit 0 1"
definition ICH_VMCR_EL2_VENG1 :: u32 where "ICH_VMCR_EL2_VENG1 = push_bit 1 1"
definition ICH_VMCR_EL2_VPMR_SHIFT :: nat where "ICH_VMCR_EL2_VPMR_SHIFT = 24"
definition ICH_VMCR_EL2_VPMR_MASK :: u32 where
  "ICH_VMCR_EL2_VPMR_MASK = push_bit ICH_VMCR_EL2_VPMR_SHIFT 0xff"

definition GICD_CTLR_G1 :: u32 where "GICD_CTLR_G1 = push_bit 0 1"
definition GICD_CTLR_G1A :: u32 where "GICD_CTLR_G1A = push_bit 1 1"
definition GICD_CTLR_ARE_NS :: u32 where "GICD_CTLR_ARE_NS = push_bit 4 1"
definition GICD_IROUTER_IRM :: u64 where "GICD_IROUTER_IRM = push_bit 31 1"
definition GICR_CTLR_DPG0 :: u32 where "GICR_CTLR_DPG0 = push_bit 24 1"
definition GICR_CTLR_DPG1NS :: u32 where "GICR_CTLR_DPG1NS = push_bit 25 1"

text \<open>
  The affinity fields of \<^verbatim>\<open>GICR_TYPER\<close>, at bit 32 and up, as
  \<^verbatim>\<open>vgic_v3_cpuinit\<close> packs them (\<^verbatim>\<open>aff << GICR_TYPER_AFF_SHIFT\<close>).
\<close>

definition GICR_TYPER_AFF_SHIFT :: nat where "GICR_TYPER_AFF_SHIFT = 32"
definition GICR_TYPER_AFF0 :: "u64 \<Rightarrow> u64" where
  "GICR_TYPER_AFF0 x = drop_bit 32 x AND 0xff"
definition GICR_TYPER_AFF1 :: "u64 \<Rightarrow> u64" where
  "GICR_TYPER_AFF1 x = drop_bit 40 x AND 0xff"
definition GICR_TYPER_AFF2 :: "u64 \<Rightarrow> u64" where
  "GICR_TYPER_AFF2 x = drop_bit 48 x AND 0xff"
definition GICR_TYPER_AFF3 :: "u64 \<Rightarrow> u64" where
  "GICR_TYPER_AFF3 x = drop_bit 56 x AND 0xff"

subsection \<open>Data model (vgic\_v3.h, vgic\_v3.c)\<close>

text \<open>Order matters, a lower value means a higher precedence.\<close>

datatype vgic_v3_irqtype =
  VGIC_IRQ_MAXPRIO | VGIC_IRQ_CLK | VGIC_IRQ_VIRTIO | VGIC_IRQ_MISC | VGIC_IRQ_INVALID

fun irqtype_ord :: "vgic_v3_irqtype \<Rightarrow> nat" where
  "irqtype_ord VGIC_IRQ_MAXPRIO = 0"
| "irqtype_ord VGIC_IRQ_CLK = 1"
| "irqtype_ord VGIC_IRQ_VIRTIO = 2"
| "irqtype_ord VGIC_IRQ_MISC = 3"
| "irqtype_ord VGIC_IRQ_INVALID = 4"

record vgic_v3_irq =
  irq :: u32
  irqtype :: vgic_v3_irqtype
  group :: u8
  enabled :: u8
  priority :: u8

text \<open>An element of a buffer allocated with \<^verbatim>\<open>M_ZERO\<close>.\<close>

definition zero_irq :: vgic_v3_irq where
  "zero_irq = \<lparr>irq = 0, irqtype = VGIC_IRQ_MAXPRIO, group = 0, enabled = 0, priority = 0\<rparr>"

text \<open>
  The register arrays of the Distributor are reached through pointers whose extent is
  set elsewhere; they are total maps from the index to the register.
\<close>

record vgic_v3_dist =
  nirqs :: nat
  gicd_ctlr :: u32
  gicd_igroupr :: "nat \<Rightarrow> u32"
  gicd_ipriorityr :: "nat \<Rightarrow> u32"
  gicd_irouter :: "nat \<Rightarrow> u64"
  gicd_ixenabler :: "nat \<Rightarrow> u32"

record vgic_v3_redist =
  gicr_typer :: u64
  gicr_ctlr :: u32
  gicr_igroupr0 :: u32
  gicr_ixenabler0 :: u32
  gicr_ipriorityr :: "nat \<Rightarrow> u32"

text \<open>
  \<open>irqbuf\<close> is the allocated array (\<open>irqbuf_size\<close> elements), of which the first
  \<open>irqbuf_num\<close> are the buffered interrupts. The sizes are \<^verbatim>\<open>size_t\<close>; they stay
  below 1024 (see \<open>irqbuf_ok\<close>), so they are natural numbers here.
\<close>

record vgic_v3_cpu_if =
  ich_vmcr_el2 :: u32
  ich_lr_el2 :: "u64 list"
  ich_lr_num :: nat
  irqbuf :: "vgic_v3_irq list"
  irqbuf_size :: nat
  irqbuf_num :: nat

subsection \<open>List register macros\<close>

definition lr_pending :: "u64 \<Rightarrow> bool" where
  "lr_pending lr \<longleftrightarrow> ICH_LR_EL2_STATE lr = ICH_LR_EL2_STATE_PENDING"
definition lr_inactive :: "u64 \<Rightarrow> bool" where
  "lr_inactive lr \<longleftrightarrow> ICH_LR_EL2_STATE lr = ICH_LR_EL2_STATE_INACTIVE"
definition lr_active :: "u64 \<Rightarrow> bool" where
  "lr_active lr \<longleftrightarrow> ICH_LR_EL2_STATE lr = ICH_LR_EL2_STATE_ACTIVE"
definition lr_pending_active :: "u64 \<Rightarrow> bool" where
  "lr_pending_active lr \<longleftrightarrow> ICH_LR_EL2_STATE lr = ICH_LR_EL2_STATE_PENDING_ACTIVE"
definition lr_not_active :: "u64 \<Rightarrow> bool" where
  "lr_not_active lr \<longleftrightarrow> \<not> lr_active lr \<and> \<not> lr_pending_active lr"

definition lr_clear_irq :: "u64 \<Rightarrow> u64" where
  "lr_clear_irq lr = lr AND NOT ICH_LR_EL2_STATE_MASK"

definition vip_to_lr :: "vgic_v3_irq \<Rightarrow> u64" where
  "vip_to_lr vip =
     ICH_LR_EL2_STATE_PENDING
       OR push_bit ICH_LR_EL2_GROUP_SHIFT (ucast (group vip))
       OR push_bit ICH_LR_EL2_PRIO_SHIFT (ucast (priority vip))
       OR ucast (irq vip)"


subsection \<open>The virtual timer and the per-CPU context\<close>

text \<open>
  Modelled from the spec: the kernel's callout facility (\<^verbatim>\<open>callout_reset_sbt\<close>,
  \<^verbatim>\<open>callout_drain\<close>) is not among the sources. A callout is idle, scheduled for a
  deadline, or its callback is in flight; draining it "waits for it to either complete or
  be cancelled".
\<close>

datatype callout_state = CALLOUT_IDLE | CALLOUT_PENDING u64 | CALLOUT_RUNNING

record vtimer_cpu =
  callout :: callout_state
  cntp_cval_el0 :: u64
  cntp_ctl_el0 :: u32
  tmr_freq :: u64

text \<open>\<open>phys_ns_irq\<close> is a C \<^verbatim>\<open>int\<close>; it is only ever read into a \<^verbatim>\<open>uint32_t\<close>.\<close>

record vtimer =
  phys_ns_irq :: u32

text \<open>
  \<^verbatim>\<open>struct hypctx\<close>, with the fields the interrupt controller and the timer use. The
  back pointer \<^verbatim>\<open>hypctx->hyp\<close> is not a field: a function that follows it takes the
  Distributor (or the timer) of the VM as an argument of its own.
\<close>

record hypctx =
  vgic_redist :: vgic_v3_redist
  vgic_cpu_if :: vgic_v3_cpu_if
  vtimer_cpu :: vtimer_cpu

record hyp =
  ctx :: "hypctx list"
  vgic_dist :: vgic_v3_dist
  vtimer :: vtimer

subsection \<open>Removing from the interrupt buffer\<close>

text \<open>
  The inner \<^verbatim>\<open>for\<close> loop of \<^verbatim>\<open>vgic_v3_irqbuf_remove_nolock\<close>: it returns the final
  \<^verbatim>\<open>from\<close> (here \<open>frm\<close>), \<open>dest\<close> and the array.
\<close>

function remove_for ::
  "u32 \<Rightarrow> nat \<Rightarrow> nat \<Rightarrow> nat \<Rightarrow> vgic_v3_irq list \<Rightarrow> nat \<times> nat \<times> vgic_v3_irq list" where
  "remove_for i frm dest num buf =
     (if frm < num then
        (if irq (buf ! frm) = i then remove_for i (frm + 1) dest num buf
         else remove_for i (frm + 1) (dest + 1) num (buf[dest := buf ! frm]))
      else (frm, dest, buf))"
  by pat_completeness auto
termination
  by (relation "measure (\<lambda>(i, frm, dest, num, buf). num - frm)") auto

declare remove_for.simps [simp del]

text \<open>The outer \<^verbatim>\<open>while\<close> loop; the result is \<^verbatim>\<open>from - dest\<close> and the new state.\<close>

function remove_while :: "u32 \<Rightarrow> nat \<Rightarrow> nat \<Rightarrow> vgic_v3_cpu_if \<Rightarrow> nat \<times> vgic_v3_cpu_if" where
  "remove_while i dest frm c =
     (if dest < irqbuf_num c then
        (if irq (irqbuf c ! dest) = i then
           (case remove_for i (dest + 1) dest (irqbuf_num c) (irqbuf c) of
              (frm', dest', buf') \<Rightarrow>
                remove_while i dest' frm' (c\<lparr>irqbuf := buf', irqbuf_num := dest'\<rparr>))
         else remove_while i (dest + 1) frm c)
      else (frm - dest, c))"
  by pat_completeness auto
termination
  by (relation "measure (\<lambda>(i, dest, frm, c). irqbuf_num c - dest)") auto

declare remove_while.simps [simp del]

text \<open>Removes ALL instances of interrupt \<open>i\<close>.\<close>

definition vgic_v3_irqbuf_remove_nolock :: "u32 \<Rightarrow> vgic_v3_cpu_if \<Rightarrow> nat \<times> vgic_v3_cpu_if" where
  "vgic_v3_irqbuf_remove_nolock i cpu_if = remove_while i 0 (irqbuf_num cpu_if) cpu_if"

text \<open>
  \<^verbatim>\<open>vgic_v3_remove_irq\<close>: the loop over the list registers changes each register on its
  own, so it is a map over the first \<open>ich_lr_num\<close> of them.
\<close>

definition remove_irq_lr :: "u32 \<Rightarrow> bool \<Rightarrow> u64 \<Rightarrow> u64" where
  "remove_irq_lr i ignore_state lr =
     (if ICH_LR_EL2_VINTID lr = ucast i \<and> (lr_not_active lr \<or> ignore_state)
      then lr_clear_irq lr else lr)"

definition vgic_v3_remove_irq ::
  "vgic_v3_dist \<Rightarrow> hypctx \<Rightarrow> u32 \<Rightarrow> bool \<Rightarrow> int \<times> hypctx" where
  "vgic_v3_remove_irq dist hypctx i ignore_state =
     (let cpu_if = vgic_cpu_if hypctx in
      if unat i \<ge> nirqs dist then (1, hypctx)
      else
        let cpu_if1 = cpu_if\<lparr>ich_lr_el2 :=
              map (remove_irq_lr i ignore_state) (take (ich_lr_num cpu_if) (ich_lr_el2 cpu_if))
                @ drop (ich_lr_num cpu_if) (ich_lr_el2 cpu_if)\<rparr>;
            cpu_if2 = snd (vgic_v3_irqbuf_remove_nolock i cpu_if1)
        in (0, hypctx\<lparr>vgic_cpu_if := cpu_if2\<rparr>))"

subsection \<open>Adding to the interrupt buffer\<close>

text \<open>
  The retry loop around \<^verbatim>\<open>malloc(..., M_NOWAIT | M_ZERO)\<close>. Whether an attempt succeeds
  is the allocator's business: \<open>alloc k\<close> says whether attempt number \<open>k\<close> does. The
  loop returns the number of the attempt that succeeded, and does not return (\<open>None\<close>)
  when none does.
\<close>

partial_function (option) malloc_retry :: "(nat \<Rightarrow> bool) \<Rightarrow> nat \<Rightarrow> nat option" where
  "malloc_retry alloc k = (if alloc k then Some k else malloc_retry alloc (Suc k))"

text \<open>
  \<^verbatim>\<open>vgic_v3_irqbuf_add_nolock\<close>: \<open>None\<close> when the retry loop never ends; otherwise the
  returned pointer (\<open>None\<close> for \<^verbatim>\<open>NULL\<close>, \<open>Some k\<close> for \<^verbatim>\<open>&irqbuf[k]\<close>) and the
  new state.
\<close>

definition vgic_v3_irqbuf_add_nolock ::
  "(nat \<Rightarrow> bool) \<Rightarrow> vgic_v3_cpu_if \<Rightarrow> (nat option \<times> vgic_v3_cpu_if) option" where
  "vgic_v3_irqbuf_add_nolock alloc cpu_if =
     (if irqbuf_num cpu_if = irqbuf_size cpu_if then
        (let new_size = 2 * irqbuf_size cpu_if in
         if new_size > IRQBUF_SIZE_MAX then Some (None, cpu_if)
         else
           (case malloc_retry alloc 0 of
              None \<Rightarrow> None
            | Some _ \<Rightarrow>
                (let new_irqbuf = take (irqbuf_size cpu_if) (irqbuf cpu_if)
                       @ replicate (new_size - irqbuf_size cpu_if) zero_irq;
                     cpu_if1 = cpu_if\<lparr>irqbuf := new_irqbuf, irqbuf_size := new_size\<rparr>;
                     cpu_if2 = cpu_if1\<lparr>irqbuf_num := irqbuf_num cpu_if1 + 1\<rparr>
                 in Some (Some (irqbuf_num cpu_if2 - 1), cpu_if2))))
      else
        (let cpu_if2 = cpu_if\<lparr>irqbuf_num := irqbuf_num cpu_if + 1\<rparr>
         in Some (Some (irqbuf_num cpu_if2 - 1), cpu_if2)))"

subsection \<open>Reading the Distributor and the Redistributor\<close>

text \<open>
  Modelled from the spec: \<^verbatim>\<open>aff_routing_en\<close> is a macro of a header that is not among
  the sources; "affinity-routing enable" is a control flag of the Distributor, the ARE\_NS
  bit that \<^verbatim>\<open>vgic_v3_vminit\<close> sets.
\<close>

definition aff_routing_en :: "vgic_v3_dist \<Rightarrow> bool" where
  "aff_routing_en dist \<longleftrightarrow> gicd_ctlr dist AND GICD_CTLR_ARE_NS \<noteq> 0"

text \<open>
  \<^verbatim>\<open>1 << irq\<close> on a 32-bit \<^verbatim>\<open>int\<close>, as the arm64 shift instruction computes it: the
  shift amount is taken modulo 32 (C leaves a shift by 32 or more undefined, and
  \<^verbatim>\<open>vgic_v3_get_int_group\<close> shifts by the interrupt ID without reducing it).
\<close>

definition shl_int :: "u32 \<Rightarrow> u32 \<Rightarrow> u32" where
  "shl_int x n = push_bit (unat n mod 32) x"

definition vgic_v3_get_int_group :: "vgic_v3_dist \<Rightarrow> vgic_v3_redist \<Rightarrow> u32 \<Rightarrow> nat" where
  "vgic_v3_get_int_group dist redist i =
     (let irq_mask = shl_int 1 i; n = unat i div 32 in
      if i \<le> GIC_LAST_PPI then (if gicr_igroupr0 redist AND irq_mask \<noteq> 0 then 1 else 0)
      else (if gicd_igroupr dist n AND irq_mask \<noteq> 0 then 1 else 0))"

text \<open>Check in the Distributor that the interrupt group hasn't been disabled.\<close>

definition vgic_v3_group_enabled :: "nat \<Rightarrow> vgic_v3_dist \<Rightarrow> bool" where
  "vgic_v3_group_enabled grp dist =
     (if grp = 1 \<and> gicd_ctlr dist AND GICD_CTLR_G1A = 0 then False
      else if grp = 0 \<and> gicd_ctlr dist AND GICD_CTLR_G1 = 0 then False
      else True)"

definition vgic_v3_intid_enabled :: "vgic_v3_dist \<Rightarrow> vgic_v3_redist \<Rightarrow> u32 \<Rightarrow> bool" where
  "vgic_v3_intid_enabled dist redist i =
     (let irq_off = unat i mod 32; irq_mask = (push_bit irq_off 1 :: u32); n = unat i div 32 in
      if i \<le> GIC_LAST_PPI then
        (if gicr_ixenabler0 redist AND irq_mask = 0 then False else True)
      else
        (if gicd_ixenabler dist n AND irq_mask = 0 then False else True))"

definition vgic_v3_get_priority :: "vgic_v3_dist \<Rightarrow> vgic_v3_redist \<Rightarrow> u32 \<Rightarrow> u8" where
  "vgic_v3_get_priority dist redist i =
     (let n = unat i div 4; off = n mod 4; mask = (push_bit off 0xff :: u32) in
      if aff_routing_en dist \<and> n \<le> 7
      then ucast (drop_bit off (gicr_ipriorityr redist n AND mask))
      else ucast (drop_bit off (gicd_ipriorityr dist n AND mask)))"

definition vgic_v3_int_target :: "vgic_v3_dist \<Rightarrow> vgic_v3_redist \<Rightarrow> u32 \<Rightarrow> bool" where
  "vgic_v3_int_target dist redist i =
     (if i \<le> GIC_LAST_PPI then True
      else if \<not> aff_routing_en dist then True
      else
        let irq_off = unat i mod 32; irq_mask = (push_bit irq_off 1 :: u32); n = unat i div 32;
            grp = (if n = 0 then (if gicr_igroupr0 redist AND irq_mask \<noteq> 0 then 1 else 0 :: nat)
                   else (if gicd_igroupr dist n AND irq_mask \<noteq> 0 then 1 else 0));
            irouter = gicd_irouter dist (unat i);
            aff = GICR_TYPER_AFF0 (gicr_typer redist)
                    OR push_bit 8 (GICR_TYPER_AFF1 (gicr_typer redist))
                    OR push_bit 16 (GICR_TYPER_AFF2 (gicr_typer redist))
                    OR push_bit 32 (GICR_TYPER_AFF3 (gicr_typer redist))
        in
          if irouter AND GICD_IROUTER_IRM \<noteq> 0 \<and> grp = 0
            then gicr_ctlr redist AND GICR_CTLR_DPG0 \<noteq> 0
          else if irouter AND GICD_IROUTER_IRM \<noteq> 0 \<and> grp = 1
            then gicr_ctlr redist AND GICR_CTLR_DPG1NS \<noteq> 0
          else irouter AND aff = aff)"

subsection \<open>Injecting an interrupt\<close>

definition vgic_v3_inject_irq ::
  "(nat \<Rightarrow> bool) \<Rightarrow> vgic_v3_dist \<Rightarrow> hypctx \<Rightarrow> u32 \<Rightarrow> vgic_v3_irqtype \<Rightarrow> (int \<times> hypctx) outcome" where
  "vgic_v3_inject_irq alloc dist hypctx i ty =
     (if \<not> i > GIC_LAST_SGI then Panic ''SGI interrupts not implemented''
      else if unat i \<ge> nirqs dist \<or> irqtype_ord ty \<ge> irqtype_ord VGIC_IRQ_INVALID
        then Return (1, hypctx)
      else
        let grp = vgic_v3_get_int_group dist (vgic_redist hypctx) i;
            en = (vgic_v3_group_enabled grp dist
                    \<and> vgic_v3_intid_enabled dist (vgic_redist hypctx) i
                    \<and> vgic_v3_int_target dist (vgic_redist hypctx) i);
            prio = vgic_v3_get_priority dist (vgic_redist hypctx) i
        in
          (case vgic_v3_irqbuf_add_nolock alloc (vgic_cpu_if hypctx) of
             None \<Rightarrow> Hang
           | Some (None, cpu_if) \<Rightarrow> Return (1, hypctx\<lparr>vgic_cpu_if := cpu_if\<rparr>)
           | Some (Some vip, cpu_if) \<Rightarrow>
               Return (0, hypctx\<lparr>vgic_cpu_if := cpu_if\<lparr>irqbuf := (irqbuf cpu_if)
                 [vip := \<lparr>irq = i, irqtype = ty, group = of_nat grp,
                          enabled = (if en then 1 else 0), priority = prio\<rparr>]\<rparr>\<rparr>)))"


subsection \<open>Updating the priority of an interrupt\<close>

definition set_priority_lr :: "u8 \<Rightarrow> u64 \<Rightarrow> u64" where
  "set_priority_lr prio lr =
     (if lr_pending lr
      then (lr AND NOT ICH_LR_EL2_PRIO_MASK) OR push_bit ICH_LR_EL2_PRIO_SHIFT (ucast prio)
      else lr)"

definition vgic_v3_irq_set_priority_vcpu :: "u32 \<Rightarrow> u8 \<Rightarrow> vgic_v3_cpu_if \<Rightarrow> vgic_v3_cpu_if" where
  "vgic_v3_irq_set_priority_vcpu i prio cpu_if =
     cpu_if\<lparr>irqbuf :=
         map (\<lambda>vip. if irq vip = i then vip\<lparr>priority := prio\<rparr> else vip)
             (take (irqbuf_num cpu_if) (irqbuf cpu_if))
           @ drop (irqbuf_num cpu_if) (irqbuf cpu_if),
       ich_lr_el2 :=
         map (set_priority_lr prio) (take (ich_lr_num cpu_if) (ich_lr_el2 cpu_if))
           @ drop (ich_lr_num cpu_if) (ich_lr_el2 cpu_if)\<rparr>"

text \<open>The update of \<^verbatim>\<open>hyp->ctx[k].vgic_cpu_if\<close>.\<close>

definition set_priority_ctx :: "u32 \<Rightarrow> u8 \<Rightarrow> nat \<Rightarrow> hyp \<Rightarrow> hyp" where
  "set_priority_ctx i prio k h =
     h\<lparr>ctx := (ctx h)[k := (ctx h ! k)\<lparr>vgic_cpu_if :=
            vgic_v3_irq_set_priority_vcpu i prio (vgic_cpu_if (ctx h ! k))\<rparr>]\<rparr>"

text \<open>
  \<^verbatim>\<open>vgic_v3_irq_set_priority\<close>; for an SPI the source loops
  \<^verbatim>\<open>for (i = 0; i < 1; i++)\<close>, which is the single index 0.
\<close>

definition vgic_v3_irq_set_priority :: "u32 \<Rightarrow> u8 \<Rightarrow> hyp \<Rightarrow> nat \<Rightarrow> hyp" where
  "vgic_v3_irq_set_priority i prio h vcpuid =
     (if i \<le> GIC_LAST_PPI then set_priority_ctx i prio vcpuid h
      else fold (set_priority_ctx i prio) [0..<1] h)"

subsection \<open>Arbitration\<close>

text \<open>
  The loop of \<^verbatim>\<open>vgic_v3_highest_priority_pending\<close>; \<open>max_idx\<close> is \<open>None\<close> for
  \<^verbatim>\<open>-1\<close>.
\<close>

function highest_priority_loop ::
  "vgic_v3_dist \<Rightarrow> vgic_v3_redist \<Rightarrow> vgic_v3_cpu_if \<Rightarrow> u8 \<Rightarrow> nat \<Rightarrow> nat option \<Rightarrow> u8
     \<Rightarrow> nat option" where
  "highest_priority_loop dist redist cpu_if vpmr i max_idx max_priority =
     (if i < irqbuf_num cpu_if then
        (let n = irq (irqbuf cpu_if ! i) in
         if n = IRQ_SCHEDULED
           then highest_priority_loop dist redist cpu_if vpmr (i + 1) max_idx max_priority
         else if \<not> vgic_v3_group_enabled (vgic_v3_get_int_group dist redist n) dist
           then highest_priority_loop dist redist cpu_if vpmr (i + 1) max_idx max_priority
         else if \<not> vgic_v3_intid_enabled dist redist n
           then highest_priority_loop dist redist cpu_if vpmr (i + 1) max_idx max_priority
         else if \<not> vgic_v3_int_target dist redist n
           then highest_priority_loop dist redist cpu_if vpmr (i + 1) max_idx max_priority
         else
           (let prio = priority (irqbuf cpu_if ! i) in
            if prio \<ge> vpmr
              then highest_priority_loop dist redist cpu_if vpmr (i + 1) max_idx max_priority
            else
              (case max_idx of
                 None \<Rightarrow> highest_priority_loop dist redist cpu_if vpmr (i + 1) (Some i) prio
               | Some m \<Rightarrow>
                   if prio > max_priority
                     then highest_priority_loop dist redist cpu_if vpmr (i + 1) (Some i) prio
                   else if prio = max_priority
                       \<and> irqtype_ord (irqtype (irqbuf cpu_if ! i))
                           < irqtype_ord (irqtype (irqbuf cpu_if ! m))
                     then highest_priority_loop dist redist cpu_if vpmr (i + 1) (Some i) prio
                   else highest_priority_loop dist redist cpu_if vpmr (i + 1) max_idx
                          max_priority)))
      else max_idx)"
  by pat_completeness auto
termination
  by (relation "measure (\<lambda>(dist, redist, cpu_if, vpmr, i, max_idx, max_priority).
        irqbuf_num cpu_if - i)") auto

declare highest_priority_loop.simps [simp del]

text \<open>The result is the index of the chosen buffer element, \<open>None\<close> for \<^verbatim>\<open>NULL\<close>.\<close>

definition vgic_v3_highest_priority_pending ::
  "vgic_v3_dist \<Rightarrow> vgic_v3_redist \<Rightarrow> vgic_v3_cpu_if \<Rightarrow> nat option" where
  "vgic_v3_highest_priority_pending dist redist cpu_if =
     (let vpmr = (ucast (drop_bit ICH_VMCR_EL2_VPMR_SHIFT
                    (ich_vmcr_el2 cpu_if AND ICH_VMCR_EL2_VPMR_MASK)) :: u8)
      in highest_priority_loop dist redist cpu_if vpmr 0 None 0xff)"

subsection \<open>Moving buffered interrupts to the list registers\<close>

text \<open>
  \<^verbatim>\<open>vgic_v3_irqbuf_next_enabled\<close> and \<^verbatim>\<open>vgic_v3_lr_next_inactive\<close>: \<open>None\<close> is the
  result \<^verbatim>\<open>-1\<close>.
\<close>

function vgic_v3_irqbuf_next_enabled ::
  "vgic_v3_irq list \<Rightarrow> nat \<Rightarrow> nat \<Rightarrow> vgic_v3_dist \<Rightarrow> vgic_v3_redist \<Rightarrow> vgic_v3_cpu_if
     \<Rightarrow> nat option" where
  "vgic_v3_irqbuf_next_enabled buf start endx dist redist cpu_if =
     (if start < endx then
        (if enabled (buf ! start) = 0
           then vgic_v3_irqbuf_next_enabled buf (start + 1) endx dist redist cpu_if
         else
           (let grp = vgic_v3_get_int_group dist redist (irq (buf ! start)) in
            if grp = 1 \<and> ich_vmcr_el2 cpu_if AND ICH_VMCR_EL2_VENG1 = 0
              then vgic_v3_irqbuf_next_enabled buf (start + 1) endx dist redist cpu_if
            else if grp = 0 \<and> ich_vmcr_el2 cpu_if AND ICH_VMCR_EL2_VENG0 = 0
              then vgic_v3_irqbuf_next_enabled buf (start + 1) endx dist redist cpu_if
            else Some start))
      else None)"
  by pat_completeness auto
termination
  by (relation "measure (\<lambda>(buf, start, endx, dist, redist, cpu_if). endx - start)") auto

declare vgic_v3_irqbuf_next_enabled.simps [simp del]

function vgic_v3_lr_next_inactive :: "u64 list \<Rightarrow> nat \<Rightarrow> nat \<Rightarrow> nat option" where
  "vgic_v3_lr_next_inactive lrs start endx =
     (if start < endx then
        (if lr_inactive (lrs ! start) then Some start
         else vgic_v3_lr_next_inactive lrs (start + 1) endx)
      else None)"
  by pat_completeness auto
termination
  by (relation "measure (\<lambda>(lrs, start, endx). endx - start)") auto

declare vgic_v3_lr_next_inactive.simps [simp del]

text \<open>
  The first loop of \<^verbatim>\<open>vgic_v3_irqbuf_to_lr\<close>: is interrupt 27 in a list register that
  is not inactive?
\<close>

definition clk_injected_scan :: "vgic_v3_cpu_if \<Rightarrow> bool" where
  "clk_injected_scan cpu_if =
     list_ex (\<lambda>lr. ICH_LR_EL2_VINTID lr = 27 \<and> \<not> lr_inactive lr)
       (take (ich_lr_num cpu_if) (ich_lr_el2 cpu_if))"

text \<open>The \<^verbatim>\<open>for (;;)\<close> loop of \<^verbatim>\<open>vgic_v3_irqbuf_to_lr\<close>.\<close>

function irqbuf_to_lr_loop ::
  "vgic_v3_dist \<Rightarrow> vgic_v3_redist \<Rightarrow> bool \<Rightarrow> nat \<Rightarrow> nat \<Rightarrow> vgic_v3_cpu_if \<Rightarrow> vgic_v3_cpu_if" where
  "irqbuf_to_lr_loop dist redist clk_injected irqbuf_idx lr_idx cpu_if =
     (case vgic_v3_irqbuf_next_enabled (irqbuf cpu_if) irqbuf_idx (irqbuf_num cpu_if)
             dist redist cpu_if of
        None \<Rightarrow> cpu_if
      | Some bi \<Rightarrow>
          (case vgic_v3_lr_next_inactive (ich_lr_el2 cpu_if) lr_idx (ich_lr_num cpu_if) of
             None \<Rightarrow> cpu_if
           | Some li \<Rightarrow>
               (let vip = irqbuf cpu_if ! bi in
                if irqtype vip = VGIC_IRQ_CLK \<and> clk_injected
                  then irqbuf_to_lr_loop dist redist clk_injected (bi + 1) li cpu_if
                else
                  irqbuf_to_lr_loop dist redist clk_injected (bi + 1) (li + 1)
                    (cpu_if\<lparr>ich_lr_el2 := (ich_lr_el2 cpu_if)[li := vip_to_lr vip],
                            irqbuf := (irqbuf cpu_if)[bi := vip\<lparr>irq := IRQ_SCHEDULED\<rparr>]\<rparr>))))"
  by pat_completeness auto
termination
proof (relation "measure (\<lambda>(dist, redist, clk_injected, irqbuf_idx, lr_idx, cpu_if).
         irqbuf_num cpu_if - irqbuf_idx)")
  have found: "vgic_v3_irqbuf_next_enabled buf start endx dist redist cpu_if = Some bi
      \<Longrightarrow> start \<le> bi \<and> bi < endx" for buf start endx dist redist cpu_if bi
    by (induction buf start endx dist redist cpu_if rule: vgic_v3_irqbuf_next_enabled.induct)
      (subst (asm) vgic_v3_irqbuf_next_enabled.simps,
        auto simp: Let_def split: if_splits dest: Suc_leD)
  {
    fix dist redist clk_injected irqbuf_idx lr_idx cpu_if bi
    assume "vgic_v3_irqbuf_next_enabled (irqbuf cpu_if) irqbuf_idx (irqbuf_num cpu_if)
              dist redist cpu_if = Some bi"
    from found [OF this] have "irqbuf_num cpu_if - (bi + 1) < irqbuf_num cpu_if - irqbuf_idx"
      by arith
  }
  note dec = this
  show "wf (measure (\<lambda>(dist, redist, clk_injected, irqbuf_idx, lr_idx, cpu_if).
         irqbuf_num cpu_if - irqbuf_idx))"
    by simp
  show "\<And>dist redist clk_injected irqbuf_idx lr_idx cpu_if x2 x2a x.
       vgic_v3_irqbuf_next_enabled (irqbuf cpu_if) irqbuf_idx (irqbuf_num cpu_if)
         dist redist cpu_if = Some x2 \<Longrightarrow>
       vgic_v3_lr_next_inactive (ich_lr_el2 cpu_if) lr_idx (ich_lr_num cpu_if) = Some x2a \<Longrightarrow>
       x = irqbuf cpu_if ! x2 \<Longrightarrow>
       irqtype x = VGIC_IRQ_CLK \<and> clk_injected \<Longrightarrow>
       ((dist, redist, clk_injected, x2 + 1, x2a, cpu_if),
        dist, redist, clk_injected, irqbuf_idx, lr_idx, cpu_if)
       \<in> measure (\<lambda>(dist, redist, clk_injected, irqbuf_idx, lr_idx, cpu_if).
            irqbuf_num cpu_if - irqbuf_idx)"
    using dec by simp
  show "\<And>dist redist clk_injected irqbuf_idx lr_idx cpu_if x2 x2a x.
       vgic_v3_irqbuf_next_enabled (irqbuf cpu_if) irqbuf_idx (irqbuf_num cpu_if)
         dist redist cpu_if = Some x2 \<Longrightarrow>
       vgic_v3_lr_next_inactive (ich_lr_el2 cpu_if) lr_idx (ich_lr_num cpu_if) = Some x2a \<Longrightarrow>
       x = irqbuf cpu_if ! x2 \<Longrightarrow>
       \<not> (irqtype x = VGIC_IRQ_CLK \<and> clk_injected) \<Longrightarrow>
       ((dist, redist, clk_injected, x2 + 1, x2a + 1,
         cpu_if\<lparr>ich_lr_el2 := (ich_lr_el2 cpu_if)[x2a := vip_to_lr x],
                irqbuf := (irqbuf cpu_if)[x2 := x\<lparr>irq := IRQ_SCHEDULED\<rparr>]\<rparr>),
        dist, redist, clk_injected, irqbuf_idx, lr_idx, cpu_if)
       \<in> measure (\<lambda>(dist, redist, clk_injected, irqbuf_idx, lr_idx, cpu_if).
            irqbuf_num cpu_if - irqbuf_idx)"
    using dec by simp
qed

declare irqbuf_to_lr_loop.simps [simp del]

definition vgic_v3_irqbuf_to_lr ::
  "vgic_v3_dist \<Rightarrow> vgic_v3_redist \<Rightarrow> vgic_v3_cpu_if \<Rightarrow> vgic_v3_cpu_if" where
  "vgic_v3_irqbuf_to_lr dist redist cpu_if =
     (let clk_injected = clk_injected_scan cpu_if;
          cpu_if1 = irqbuf_to_lr_loop dist redist clk_injected 0 0 cpu_if
      in snd (vgic_v3_irqbuf_remove_nolock IRQ_SCHEDULED cpu_if1))"


subsection \<open>Synchronizing before guest entry\<close>

text \<open>
  \<^verbatim>\<open>vgic_v3_sync_hwstate\<close>. When the buffered interrupts do not fit in the inactive
  list registers the source prints the list registers and calls
  \<^verbatim>\<open>panic("reshuffled")\<close>; the statements after that call are never reached.
\<close>

definition vgic_v3_sync_hwstate :: "vgic_v3_dist \<Rightarrow> hypctx \<Rightarrow> hypctx outcome" where
  "vgic_v3_sync_hwstate dist hypctx =
     (let cpu_if = vgic_cpu_if hypctx in
      if irqbuf_num cpu_if = 0 then Return hypctx
      else
        let lr_free = length (filter lr_inactive (take (ich_lr_num cpu_if) (ich_lr_el2 cpu_if)))
        in
          if irqbuf_num cpu_if \<le> lr_free
            then Return (hypctx\<lparr>vgic_cpu_if :=
                   vgic_v3_irqbuf_to_lr dist (vgic_redist hypctx) cpu_if\<rparr>)
          else Panic ''reshuffled'')"

subsection \<open>The virtual timer (vtimer.c)\<close>









section \<open>Notions used to state the properties\<close>

text \<open>
  The buffer is well formed: what \<^verbatim>\<open>vgic_v3_cpuinit\<close> establishes (an array of
  \<^verbatim>\<open>IRQBUF_SIZE_MIN\<close> elements, none in use) and every operation keeps.
\<close>

definition irqbuf_ok :: "vgic_v3_cpu_if \<Rightarrow> bool" where
  "irqbuf_ok cpu_if \<longleftrightarrow>
     irqbuf_num cpu_if \<le> irqbuf_size cpu_if
       \<and> IRQBUF_SIZE_MIN \<le> irqbuf_size cpu_if \<and> irqbuf_size cpu_if \<le> IRQBUF_SIZE_MAX
       \<and> length (irqbuf cpu_if) = irqbuf_size cpu_if"

text \<open>
  A sequence of inject calls on one virtual CPU, each with its allocator behaviour, the
  Distributor state it sees, the interrupt and the type. It stops at the first call that
  does not return.
\<close>

fun inject_seq ::
  "hypctx \<Rightarrow> ((nat \<Rightarrow> bool) \<times> vgic_v3_dist \<times> u32 \<times> vgic_v3_irqtype) list \<Rightarrow> hypctx outcome" where
  "inject_seq hypctx [] = Return hypctx"
| "inject_seq hypctx ((alloc, dist, i, ty) # calls) =
     (case vgic_v3_inject_irq alloc dist hypctx i ty of
        Hang \<Rightarrow> Hang
      | Panic msg \<Rightarrow> Panic msg
      | Return (err, hypctx') \<Rightarrow> inject_seq hypctx' calls)"

text \<open>
  The priority mask that \<^verbatim>\<open>vgic_v3_highest_priority_pending\<close> reads from
  \<^verbatim>\<open>ICH_VMCR_EL2\<close>, and the buffered interrupts its loop does not skip: not marked as
  scheduled, group and ID enabled in the Distributor, this CPU a target, priority below
  the mask.
\<close>

definition vpmr_of :: "vgic_v3_cpu_if \<Rightarrow> u8" where
  "vpmr_of cpu_if =
     ucast (drop_bit ICH_VMCR_EL2_VPMR_SHIFT (ich_vmcr_el2 cpu_if AND ICH_VMCR_EL2_VPMR_MASK))"

definition schedulable :: "vgic_v3_dist \<Rightarrow> vgic_v3_redist \<Rightarrow> u8 \<Rightarrow> vgic_v3_irq \<Rightarrow> bool" where
  "schedulable dist redist vpmr vip \<longleftrightarrow>
     irq vip \<noteq> IRQ_SCHEDULED
     \<and> vgic_v3_group_enabled (vgic_v3_get_int_group dist redist (irq vip)) dist
     \<and> vgic_v3_intid_enabled dist redist (irq vip)
     \<and> vgic_v3_int_target dist redist (irq vip)
     \<and> priority vip < vpmr"

text \<open>
  \<open>outranks x y\<close>: the arbitration loop, holding \<open>x\<close>, does not replace it by \<open>y\<close>.
\<close>

definition outranks :: "vgic_v3_irq \<Rightarrow> vgic_v3_irq \<Rightarrow> bool" where
  "outranks x y \<longleftrightarrow>
     priority y < priority x
     \<or> (priority y = priority x \<and> irqtype_ord (irqtype x) \<le> irqtype_ord (irqtype y))"

text \<open>The invariant of the arbitration loop after the first \<open>i\<close> buffer elements.\<close>

definition arb_inv ::
  "vgic_v3_dist \<Rightarrow> vgic_v3_redist \<Rightarrow> u8 \<Rightarrow> vgic_v3_irq list \<Rightarrow> nat \<Rightarrow> nat option \<Rightarrow> bool" where
  "arb_inv dist redist vpmr buf i max_idx =
     (case max_idx of
        None \<Rightarrow> (\<forall>j<i. \<not> schedulable dist redist vpmr (buf ! j))
      | Some m \<Rightarrow> m < i \<and> schedulable dist redist vpmr (buf ! m)
          \<and> (\<forall>j<i. schedulable dist redist vpmr (buf ! j) \<longrightarrow> outranks (buf ! m) (buf ! j)))"


text \<open>
  What \<^verbatim>\<open>vgic_v3_irqbuf_next_enabled\<close> looks for: a buffered interrupt whose enabled
  snapshot is set and whose group, as the Distributor or Redistributor has it now, is
  enabled in the group-enable bits of \<^verbatim>\<open>ICH_VMCR_EL2\<close>.
\<close>

definition deliverable :: "vgic_v3_dist \<Rightarrow> vgic_v3_redist \<Rightarrow> u32 \<Rightarrow> vgic_v3_irq \<Rightarrow> bool" where
  "deliverable dist redist vmcr vip \<longleftrightarrow>
     enabled vip \<noteq> 0
     \<and> (let grp = vgic_v3_get_int_group dist redist (irq vip) in
          \<not> (grp = 1 \<and> vmcr AND ICH_VMCR_EL2_VENG1 = 0)
          \<and> \<not> (grp = 0 \<and> vmcr AND ICH_VMCR_EL2_VENG0 = 0))"

text \<open>
  The interrupts a pass places: deliverable, and not of type timer-clock while interrupt 27
  sits in a list register that is not inactive (\<open>clk\<close>).
\<close>

definition eligible ::
  "vgic_v3_dist \<Rightarrow> vgic_v3_redist \<Rightarrow> u32 \<Rightarrow> bool \<Rightarrow> vgic_v3_irq \<Rightarrow> bool" where
  "eligible dist redist vmcr clk vip \<longleftrightarrow>
     deliverable dist redist vmcr vip \<and> \<not> (irqtype vip = VGIC_IRQ_CLK \<and> clk)"

text \<open>
  Placing in arrival order, in the words of the spec: the first interrupt goes to the first
  inactive list register, the second to the next inactive one, and so on; list registers
  that are not inactive are kept.
\<close>

fun assign_lrs :: "u64 list \<Rightarrow> vgic_v3_irq list \<Rightarrow> u64 list" where
  "assign_lrs [] vips = []"
| "assign_lrs (lr # lrs) [] = lr # lrs"
| "assign_lrs (lr # lrs) (vip # vips) =
     (if lr_inactive lr then vip_to_lr vip # assign_lrs lrs vips
      else lr # assign_lrs lrs (vip # vips))"

text \<open>
  The \<^verbatim>\<open>for (;;)\<close> loop of \<^verbatim>\<open>vgic_v3_irqbuf_to_lr\<close> as a recursion over what is
  left of the buffer and of the list registers: the buffer, then the list registers, it
  leaves.
\<close>

fun fill_buf ::
  "(vgic_v3_irq \<Rightarrow> bool) \<Rightarrow> bool \<Rightarrow> vgic_v3_irq list \<Rightarrow> u64 list \<Rightarrow> vgic_v3_irq list" where
  "fill_buf en clk [] lrs = []"
| "fill_buf en clk (vip # vips) [] = vip # vips"
| "fill_buf en clk (vip # vips) (lr # lrs) =
     (if \<not> en vip then vip # fill_buf en clk vips (lr # lrs)
      else if \<not> lr_inactive lr then fill_buf en clk (vip # vips) lrs
      else if irqtype vip = VGIC_IRQ_CLK \<and> clk then vip # fill_buf en clk vips (lr # lrs)
      else vip\<lparr>irq := IRQ_SCHEDULED\<rparr> # fill_buf en clk vips lrs)"

fun fill_lrs ::
  "(vgic_v3_irq \<Rightarrow> bool) \<Rightarrow> bool \<Rightarrow> vgic_v3_irq list \<Rightarrow> u64 list \<Rightarrow> u64 list" where
  "fill_lrs en clk [] lrs = lrs"
| "fill_lrs en clk (vip # vips) [] = []"
| "fill_lrs en clk (vip # vips) (lr # lrs) =
     (if \<not> en vip then fill_lrs en clk vips (lr # lrs)
      else if \<not> lr_inactive lr then lr # fill_lrs en clk (vip # vips) lrs
      else if irqtype vip = VGIC_IRQ_CLK \<and> clk then fill_lrs en clk vips (lr # lrs)
      else vip_to_lr vip # fill_lrs en clk vips lrs)"

section \<open>Example states\<close>

text \<open>
  A Distributor with 64 interrupts, both groups and affinity routing enabled, every
  interrupt enabled, in group 0 and routed to affinity 0.0.0.0; the Redistributor of the
  CPU with that affinity; an allocator that never fails.
\<close>

definition ex_dist :: vgic_v3_dist where
  "ex_dist = \<lparr>nirqs = 64, gicd_ctlr = 0x13, gicd_igroupr = (\<lambda>n. 0),
     gicd_ipriorityr = (\<lambda>n. 0), gicd_irouter = (\<lambda>n. 0), gicd_ixenabler = (\<lambda>n. 0xffffffff)\<rparr>"

definition ex_redist :: vgic_v3_redist where
  "ex_redist = \<lparr>gicr_typer = 0, gicr_ctlr = 0, gicr_igroupr0 = 0,
     gicr_ixenabler0 = 0xffffffff, gicr_ipriorityr = (\<lambda>n. 0)\<rparr>"

definition ex_vtimer_cpu :: vtimer_cpu where
  "ex_vtimer_cpu = \<lparr>callout = CALLOUT_IDLE, cntp_cval_el0 = 0, cntp_ctl_el0 = 2, tmr_freq = 1\<rparr>"

definition alloc_ok :: "nat \<Rightarrow> bool" where
  "alloc_ok k = True"

text \<open>A virtual CPU whose buffer is full at the maximal capacity.\<close>

definition ex_cpu_if_full :: vgic_v3_cpu_if where
  "ex_cpu_if_full = \<lparr>ich_vmcr_el2 = 0xff000003, ich_lr_el2 = replicate 16 0, ich_lr_num = 4,
     irqbuf = replicate 1024 zero_irq, irqbuf_size = 1024, irqbuf_num = 1024\<rparr>"

definition ex_hypctx_full :: hypctx where
  "ex_hypctx_full =
     \<lparr>vgic_redist = ex_redist, vgic_cpu_if = ex_cpu_if_full, vtimer_cpu = ex_vtimer_cpu\<rparr>"

text \<open>A virtual CPU as \<^verbatim>\<open>vgic_v3_cpuinit\<close> leaves its buffer, with four list registers.\<close>

definition ex_cpu_if_init :: vgic_v3_cpu_if where
  "ex_cpu_if_init = \<lparr>ich_vmcr_el2 = 0xff000003, ich_lr_el2 = replicate 16 0, ich_lr_num = 4,
     irqbuf = replicate 32 zero_irq, irqbuf_size = 32, irqbuf_num = 0\<rparr>"

definition ex_hypctx_init :: hypctx where
  "ex_hypctx_init =
     \<lparr>vgic_redist = ex_redist, vgic_cpu_if = ex_cpu_if_init, vtimer_cpu = ex_vtimer_cpu\<rparr>"

text \<open>
  Two buffered device interrupts of priorities 10 and 20, and list registers of which
  only the first is inactive.
\<close>

definition ex_irq_a :: vgic_v3_irq where
  "ex_irq_a = \<lparr>irq = 40, irqtype = VGIC_IRQ_VIRTIO, group = 0, enabled = 1, priority = 10\<rparr>"

definition ex_irq_b :: vgic_v3_irq where
  "ex_irq_b = \<lparr>irq = 41, irqtype = VGIC_IRQ_VIRTIO, group = 0, enabled = 1, priority = 20\<rparr>"

definition ex_lrs_one_free :: "u64 list" where
  "ex_lrs_one_free =
     [0, 0x8000000000000021, 0x8000000000000022, 0x8000000000000023] @ replicate 12 0"

definition ex_cpu_if_two :: vgic_v3_cpu_if where
  "ex_cpu_if_two = \<lparr>ich_vmcr_el2 = 0xff000003, ich_lr_el2 = ex_lrs_one_free, ich_lr_num = 4,
     irqbuf = [ex_irq_a, ex_irq_b] @ replicate 30 zero_irq, irqbuf_size = 32, irqbuf_num = 2\<rparr>"

definition ex_hypctx_two :: hypctx where
  "ex_hypctx_two =
     \<lparr>vgic_redist = ex_redist, vgic_cpu_if = ex_cpu_if_two, vtimer_cpu = ex_vtimer_cpu\<rparr>"

text \<open>
  The scenario of the spec: A of priority 10 and type device, B of priority 10 and type
  timer-clock, one free list register.
\<close>

definition ex_irq_dev :: vgic_v3_irq where
  "ex_irq_dev = \<lparr>irq = 40, irqtype = VGIC_IRQ_VIRTIO, group = 0, enabled = 1, priority = 10\<rparr>"

definition ex_irq_clk :: vgic_v3_irq where
  "ex_irq_clk = \<lparr>irq = 30, irqtype = VGIC_IRQ_CLK, group = 0, enabled = 1, priority = 10\<rparr>"

definition ex_cpu_if_tie :: vgic_v3_cpu_if where
  "ex_cpu_if_tie = \<lparr>ich_vmcr_el2 = 0xff000003, ich_lr_el2 = ex_lrs_one_free, ich_lr_num = 4,
     irqbuf = [ex_irq_dev, ex_irq_clk] @ replicate 30 zero_irq, irqbuf_size = 32,
     irqbuf_num = 2\<rparr>"

definition ex_hypctx_tie :: hypctx where
  "ex_hypctx_tie =
     \<lparr>vgic_redist = ex_redist, vgic_cpu_if = ex_cpu_if_tie, vtimer_cpu = ex_vtimer_cpu\<rparr>"

text \<open>A Distributor that routes every SPI to the CPU of affinity 0.0.0.1.\<close>

definition ex_dist_route :: vgic_v3_dist where
  "ex_dist_route = ex_dist\<lparr>gicd_irouter := (\<lambda>n. 1)\<rparr>"

text \<open>
  Two virtual CPUs, each with interrupt 33 buffered at priority 0xa0 and interrupt 40
  pending at priority 0x80 in its first list register.
\<close>

definition ex_cpu_if_prio :: vgic_v3_cpu_if where
  "ex_cpu_if_prio = \<lparr>ich_vmcr_el2 = 0xff000003,
     ich_lr_el2 = [vip_to_lr \<lparr>irq = 40, irqtype = VGIC_IRQ_VIRTIO, group = 0, enabled = 1,
                      priority = 0x80\<rparr>] @ replicate 15 0,
     ich_lr_num = 4,
     irqbuf = [\<lparr>irq = 33, irqtype = VGIC_IRQ_VIRTIO, group = 0, enabled = 1,
                 priority = 0xa0\<rparr>] @ replicate 31 zero_irq,
     irqbuf_size = 32, irqbuf_num = 1\<rparr>"

definition ex_hyp_prio :: hyp where
  "ex_hyp_prio =
     \<lparr>ctx = replicate 2 \<lparr>vgic_redist = ex_redist, vgic_cpu_if = ex_cpu_if_prio,
                           vtimer_cpu = ex_vtimer_cpu\<rparr>,
      vgic_dist = ex_dist, vtimer = \<lparr>phys_ns_irq = 30\<rparr>\<rparr>"




text \<open>
  The same list registers with three buffered interrupts: a disabled one, the timer-clock
  one and a device one.
\<close>

definition ex_irq_off :: vgic_v3_irq where
  "ex_irq_off = \<lparr>irq = 41, irqtype = VGIC_IRQ_VIRTIO, group = 0, enabled = 0, priority = 20\<rparr>"

definition ex_cpu_if_fast :: vgic_v3_cpu_if where
  "ex_cpu_if_fast = \<lparr>ich_vmcr_el2 = 0xff000003,
     ich_lr_el2 = [0x800000000000001b, 0, 0, 0] @ replicate 12 0, ich_lr_num = 4,
     irqbuf = [ex_irq_off, ex_irq_clk, ex_irq_dev] @ replicate 29 zero_irq, irqbuf_size = 32,
     irqbuf_num = 3\<rparr>"

definition ex_hypctx_fast :: hypctx where
  "ex_hypctx_fast =
     \<lparr>vgic_redist = ex_redist, vgic_cpu_if = ex_cpu_if_fast, vtimer_cpu = ex_vtimer_cpu\<rparr>"




text \<open>
  A VM whose timer interrupt is 30. That interrupt is active in the first list register
  of the virtual CPU (the guest is in its handler), three list registers are inactive,
  and the timer has fired again: one enabled timer-clock interrupt 30 is buffered.
  \<open>ex_hypctx_placed\<close> is the virtual CPU with the buffered interrupt written as pending
  into the second list register and gone from the buffer (its array element keeps the
  sentinel ID).
\<close>

definition ex_cpu_if_resident :: vgic_v3_cpu_if where
  "ex_cpu_if_resident = \<lparr>ich_vmcr_el2 = 0xff000003,
     ich_lr_el2 = [0x800000000000001e, 0, 0, 0] @ replicate 12 0, ich_lr_num = 4,
     irqbuf = [ex_irq_clk] @ replicate 31 zero_irq, irqbuf_size = 32, irqbuf_num = 1\<rparr>"

definition ex_hyp_resident :: hyp where
  "ex_hyp_resident =
     \<lparr>ctx = [\<lparr>vgic_redist = ex_redist, vgic_cpu_if = ex_cpu_if_resident,
              vtimer_cpu = ex_vtimer_cpu\<rparr>],
      vgic_dist = ex_dist, vtimer = \<lparr>phys_ns_irq = 30\<rparr>\<rparr>"

definition ex_cpu_if_placed :: vgic_v3_cpu_if where
  "ex_cpu_if_placed = \<lparr>ich_vmcr_el2 = 0xff000003,
     ich_lr_el2 = [0x800000000000001e, 0x400a00000000001e, 0, 0] @ replicate 12 0,
     ich_lr_num = 4,
     irqbuf = [ex_irq_clk\<lparr>irq := IRQ_SCHEDULED\<rparr>] @ replicate 31 zero_irq,
     irqbuf_size = 32, irqbuf_num = 0\<rparr>"

definition ex_hypctx_placed :: hypctx where
  "ex_hypctx_placed =
     \<lparr>vgic_redist = ex_redist, vgic_cpu_if = ex_cpu_if_placed, vtimer_cpu = ex_vtimer_cpu\<rparr>"




section \<open>Properties\<close>

subsection \<open>The capacity of the buffer\<close>

lemma add_nolock_ok:
  assumes "irqbuf_ok c" "vgic_v3_irqbuf_add_nolock alloc c = Some (r, c')"
  shows "irqbuf_ok c' \<and> (case r of None \<Rightarrow> c' = c
           | Some k \<Rightarrow> k < length (irqbuf c') \<and> k = irqbuf_num c \<and> irqbuf_num c' = Suc k)"
  using assms
  by (auto simp: irqbuf_ok_def vgic_v3_irqbuf_add_nolock_def Let_def IRQBUF_SIZE_MAX_def
      IRQBUF_SIZE_MIN_def split: if_splits option.splits)

lemma inject_ok:
  assumes "irqbuf_ok (vgic_cpu_if h)" "vgic_v3_inject_irq alloc dist h i ty = Return (e, h')"
  shows "irqbuf_ok (vgic_cpu_if h')"
proof (cases "vgic_v3_irqbuf_add_nolock alloc (vgic_cpu_if h)")
  case None
  with assms show ?thesis
    by (auto simp: vgic_v3_inject_irq_def Let_def split: if_splits)
next
  case (Some p)
  obtain r c' where p: "p = (r, c')" by (cases p)
  from add_nolock_ok [OF assms(1) Some [unfolded p]] assms Some p show ?thesis
    by (cases r) (auto simp: vgic_v3_inject_irq_def Let_def irqbuf_ok_def split: if_splits)
qed

lemma inject_seq_ok:
  "irqbuf_ok (vgic_cpu_if h) \<Longrightarrow> inject_seq h calls = Return h' \<Longrightarrow> irqbuf_ok (vgic_cpu_if h')"
proof (induction calls arbitrary: h)
  case Nil
  then show ?case by simp
next
  case (Cons call calls)
  obtain alloc dist i ty where call: "call = (alloc, dist, i, ty)" by (cases call)
  from Cons.prems(2) obtain e h1 where
    step: "vgic_v3_inject_irq alloc dist h i ty = Return (e, h1)"
    and rest: "inject_seq h1 calls = Return h'"
    by (auto simp: call split: outcome.splits)
  from Cons.IH [OF inject_ok [OF Cons.prems(1) step] rest] show ?case .
qed

lemma inject_full:
  assumes "irqbuf_ok (vgic_cpu_if h)" "irqbuf_num (vgic_cpu_if h) = IRQBUF_SIZE_MAX"
    "GIC_LAST_SGI < i"
  shows "vgic_v3_inject_irq alloc dist h i ty = Return (1, h)"
  using assms
  by (auto simp: vgic_v3_inject_irq_def vgic_v3_irqbuf_add_nolock_def Let_def irqbuf_ok_def
      IRQBUF_SIZE_MAX_def)

lemma ex_full_ok: "irqbuf_ok (vgic_cpu_if ex_hypctx_full)"
  by (simp add: ex_hypctx_full_def ex_cpu_if_full_def irqbuf_ok_def IRQBUF_SIZE_MAX_def
      IRQBUF_SIZE_MIN_def)

lemma ex_full_seq:
  "inject_seq ex_hypctx_full [(alloc_ok, ex_dist, 27, VGIC_IRQ_CLK)] = Return ex_hypctx_full"
  by (simp add: vgic_v3_inject_irq_def vgic_v3_irqbuf_add_nolock_def ex_hypctx_full_def
      ex_cpu_if_full_def GIC_LAST_SGI_def ex_dist_def IRQBUF_SIZE_MAX_def)

text \<open>
  Claim C1. Starting from a well-formed buffer, after every sequence of inject calls that
  return, the number of buffered interrupts and the capacity are at most 1024 (and the
  buffer is well formed again); in a state with 1024 buffered interrupts every further
  inject call (of an interrupt that is not an SGI) returns the error 1 and leaves the
  whole per-CPU state, hence the buffer contents, the element count and the capacity,
  as they were.
\<close>

theorem irqbuf_capacity:
  assumes "irqbuf_ok (vgic_cpu_if h)" and "inject_seq h calls = Return h'"
  shows "irqbuf_num (vgic_cpu_if h') \<le> 1024 \<and> irqbuf_size (vgic_cpu_if h') \<le> 1024
    \<and> irqbuf_ok (vgic_cpu_if h')
    \<and> (\<forall>alloc dist i ty. GIC_LAST_SGI < i \<and> irqbuf_num (vgic_cpu_if h') = 1024 \<longrightarrow>
          vgic_v3_inject_irq alloc dist h' i ty = Return (1, h'))"
proof -
  have ok: "irqbuf_ok (vgic_cpu_if h')" by (rule inject_seq_ok [OF assms])
  then show ?thesis
    using inject_full [OF ok] by (auto simp: irqbuf_ok_def IRQBUF_SIZE_MAX_def)
qed

theorem irqbuf_capacity_witness:
  "irqbuf_ok (vgic_cpu_if ex_hypctx_full)
   \<and> inject_seq ex_hypctx_full [(alloc_ok, ex_dist, 27, VGIC_IRQ_CLK)] = Return ex_hypctx_full
   \<and> irqbuf_num (vgic_cpu_if ex_hypctx_full) = 1024
   \<and> vgic_v3_inject_irq alloc_ok ex_dist ex_hypctx_full 30 VGIC_IRQ_CLK
       = Return (1, ex_hypctx_full)"
proof -
  have n: "irqbuf_num (vgic_cpu_if ex_hypctx_full) = 1024"
    by (simp add: ex_hypctx_full_def ex_cpu_if_full_def)
  have g: "GIC_LAST_SGI < 30" by (simp add: GIC_LAST_SGI_def)
  from irqbuf_capacity [OF ex_full_ok ex_full_seq] n g ex_full_ok ex_full_seq
  show ?thesis by blast
qed

subsection \<open>Software generated interrupts\<close>

text \<open>
  Claim C10. Injecting an interrupt of the SGI range (0..15) fails the assertion
  \<^verbatim>\<open>irq > GIC_LAST_SGI\<close>, whatever the Distributor, the buffer and the delivery type
  are: the call is neither accepted nor rejected through the error path, and nothing is
  appended to the buffer.
\<close>

theorem inject_sgi_asserts:
  "i \<le> GIC_LAST_SGI \<Longrightarrow>
     vgic_v3_inject_irq alloc dist hypctx i ty = Panic ''SGI interrupts not implemented''"
  by (simp add: vgic_v3_inject_irq_def not_less)

theorem inject_sgi_asserts_witness:
  "(5 :: u32) \<le> GIC_LAST_SGI
   \<and> vgic_v3_inject_irq alloc_ok ex_dist ex_hypctx_init 5 VGIC_IRQ_VIRTIO
       = Panic ''SGI interrupts not implemented''"
proof -
  have h: "(5 :: u32) \<le> GIC_LAST_SGI" by (simp add: GIC_LAST_SGI_def)
  from inject_sgi_asserts [OF h] h show ?thesis by blast
qed


subsection \<open>Malformed requests\<close>

text \<open>
  Claim C9, the counterexample. An inject call with the invalid delivery type and an
  interrupt of the SGI range does not return an error to its caller: the assertion
  \<^verbatim>\<open>irq > GIC_LAST_SGI\<close> comes before the check of the request, and the kernel
  panics.
\<close>

theorem malformed_sgi_panics:
  "vgic_v3_inject_irq alloc_ok ex_dist ex_hypctx_init 5 VGIC_IRQ_INVALID
     = Panic ''SGI interrupts not implemented''"
  by (simp add: vgic_v3_inject_irq_def GIC_LAST_SGI_def)

text \<open>
  Claim C9, as amended. An inject call for an interrupt beyond the SGI range whose ID is
  not below the interrupt count of the Distributor, or whose delivery type is the invalid
  one, returns 1 and the state of the virtual CPU is as it was; so does a remove call whose
  ID is not below the interrupt count. (Neither function writes the Distributor.)
\<close>

theorem malformed_request_rejected:
  "(GIC_LAST_SGI < i \<and> (nirqs dist \<le> unat i \<or> ty = VGIC_IRQ_INVALID) \<longrightarrow>
      vgic_v3_inject_irq alloc dist hypctx i ty = Return (1, hypctx))
   \<and> (nirqs dist \<le> unat i \<longrightarrow> vgic_v3_remove_irq dist hypctx i ignore_state = (1, hypctx))"
  by (auto simp: vgic_v3_inject_irq_def vgic_v3_remove_irq_def Let_def)

theorem malformed_request_rejected_witness:
  "GIC_LAST_SGI < 100 \<and> nirqs ex_dist \<le> unat (100 :: u32)
   \<and> vgic_v3_inject_irq alloc_ok ex_dist ex_hypctx_init 100 VGIC_IRQ_CLK
       = Return (1, ex_hypctx_init)
   \<and> vgic_v3_inject_irq alloc_ok ex_dist ex_hypctx_init 40 VGIC_IRQ_INVALID
       = Return (1, ex_hypctx_init)
   \<and> vgic_v3_remove_irq ex_dist ex_hypctx_init 100 False = (1, ex_hypctx_init)"
proof -
  have g: "GIC_LAST_SGI < 100" "GIC_LAST_SGI < 40" by (simp_all add: GIC_LAST_SGI_def)
  have n: "nirqs ex_dist \<le> unat (100 :: u32)" by (simp add: ex_dist_def)
  from malformed_request_rejected [of 100 ex_dist VGIC_IRQ_CLK alloc_ok ex_hypctx_init False]
    malformed_request_rejected [of 40 ex_dist VGIC_IRQ_INVALID alloc_ok ex_hypctx_init False]
    g n
  show ?thesis by blast
qed

subsection \<open>Arbitration\<close>

lemma arb_inv_skip:
  "arb_inv dist redist vpmr buf i mi \<Longrightarrow> \<not> schedulable dist redist vpmr (buf ! i)
     \<Longrightarrow> arb_inv dist redist vpmr buf (Suc i) mi"
  by (auto simp: arb_inv_def less_Suc_eq split: option.splits)

lemma arb_inv_first:
  "arb_inv dist redist vpmr buf i None \<Longrightarrow> schedulable dist redist vpmr (buf ! i)
     \<Longrightarrow> arb_inv dist redist vpmr buf (Suc i) (Some i)"
  by (auto simp: arb_inv_def less_Suc_eq outranks_def)

lemma arb_inv_take:
  "arb_inv dist redist vpmr buf i (Some m) \<Longrightarrow> schedulable dist redist vpmr (buf ! i)
     \<Longrightarrow> priority (buf ! m) < priority (buf ! i)
          \<or> (priority (buf ! i) = priority (buf ! m)
               \<and> irqtype_ord (irqtype (buf ! i)) < irqtype_ord (irqtype (buf ! m)))
     \<Longrightarrow> arb_inv dist redist vpmr buf (Suc i) (Some i)"
  by (fastforce simp: arb_inv_def less_Suc_eq outranks_def)

lemma arb_inv_keep:
  "arb_inv dist redist vpmr buf i (Some m) \<Longrightarrow> schedulable dist redist vpmr (buf ! i)
     \<Longrightarrow> \<not> priority (buf ! m) < priority (buf ! i)
     \<Longrightarrow> \<not> (priority (buf ! i) = priority (buf ! m)
               \<and> irqtype_ord (irqtype (buf ! i)) < irqtype_ord (irqtype (buf ! m)))
     \<Longrightarrow> arb_inv dist redist vpmr buf (Suc i) (Some m)"
  by (fastforce simp: arb_inv_def less_Suc_eq outranks_def not_less)

lemma highest_priority_loop_inv:
  assumes "arb_inv dist redist vpmr (irqbuf c) i mi"
    and "case mi of None \<Rightarrow> True | Some m \<Rightarrow> mp = priority (irqbuf c ! m)"
    and "i \<le> irqbuf_num c"
  shows "arb_inv dist redist vpmr (irqbuf c) (irqbuf_num c)
           (highest_priority_loop dist redist c vpmr i mi mp)"
  using assms
proof (induction "irqbuf_num c - i" arbitrary: i mi mp)
  case 0
  then show ?case by (subst highest_priority_loop.simps) simp
next
  case (Suc k)
  then have lt: "i < irqbuf_num c" and k: "k = irqbuf_num c - Suc i" and le: "Suc i \<le> irqbuf_num c"
    by auto
  note IH = Suc.hyps(1) [OF k _ _ le]
  show ?case
  proof (cases "schedulable dist redist vpmr (irqbuf c ! i)")
    case False
    have "highest_priority_loop dist redist c vpmr i mi mp
          = highest_priority_loop dist redist c vpmr (Suc i) mi mp"
      using False lt by (subst highest_priority_loop.simps) (auto simp: schedulable_def Let_def not_less)
    with IH [OF arb_inv_skip [OF Suc.prems(1) False] Suc.prems(2)] show ?thesis by simp
  next
    case True
    show ?thesis
    proof (cases mi)
      case None
      have "highest_priority_loop dist redist c vpmr i mi mp
          = highest_priority_loop dist redist c vpmr (Suc i) (Some i) (priority (irqbuf c ! i))"
        using True lt None
        by (subst highest_priority_loop.simps) (auto simp: schedulable_def Let_def not_less)
      with IH [OF arb_inv_first [OF Suc.prems(1) [unfolded None] True]] show ?thesis by simp
    next
      case (Some m)
      with Suc.prems(2) have mp: "mp = priority (irqbuf c ! m)" by simp
      show ?thesis
      proof (cases "priority (irqbuf c ! m) < priority (irqbuf c ! i)
          \<or> (priority (irqbuf c ! i) = priority (irqbuf c ! m)
               \<and> irqtype_ord (irqtype (irqbuf c ! i)) < irqtype_ord (irqtype (irqbuf c ! m)))")
        case better: True
        have "highest_priority_loop dist redist c vpmr i mi mp
          = highest_priority_loop dist redist c vpmr (Suc i) (Some i) (priority (irqbuf c ! i))"
          using True lt Some mp better
          by (subst highest_priority_loop.simps) (auto simp: schedulable_def Let_def not_less)
        with IH [OF arb_inv_take [OF Suc.prems(1) [unfolded Some] True better]]
        show ?thesis by simp
      next
        case worse: False
        have "highest_priority_loop dist redist c vpmr i mi mp
          = highest_priority_loop dist redist c vpmr (Suc i) (Some m) mp"
          using True lt Some mp worse
          by (subst highest_priority_loop.simps) (auto simp: schedulable_def Let_def not_less)
        with IH [OF arb_inv_keep [OF Suc.prems(1) [unfolded Some] True], of mp] worse mp
        show ?thesis by simp
      qed
    qed
  qed
qed

lemma highest_priority_pending_spec:
  "arb_inv dist redist (vpmr_of c) (irqbuf c) (irqbuf_num c)
     (vgic_v3_highest_priority_pending dist redist c)"
  unfolding vgic_v3_highest_priority_pending_def Let_def vpmr_of_def [symmetric]
  by (rule highest_priority_loop_inv) (simp_all add: arb_inv_def)

lemma ex_tie_free:
  "length (filter lr_inactive (take (ich_lr_num ex_cpu_if_tie) (ich_lr_el2 ex_cpu_if_tie))) = 1"
  by code_simp

lemma ex_two_free:
  "length (filter lr_inactive (take (ich_lr_num ex_cpu_if_two) (ich_lr_el2 ex_cpu_if_two))) = 1"
  by code_simp

text \<open>
  On two schedulable interrupts of priorities 10 and 20 the arbitration function returns
  the second, the one with the higher priority value: its loop replaces the candidate
  when \<^verbatim>\<open>priority > max_priority\<close>.
\<close>

lemma ex_two_arbitration:
  "schedulable ex_dist ex_redist (vpmr_of ex_cpu_if_two) (irqbuf ex_cpu_if_two ! 0)
   \<and> schedulable ex_dist ex_redist (vpmr_of ex_cpu_if_two) (irqbuf ex_cpu_if_two ! 1)
   \<and> priority (irqbuf ex_cpu_if_two ! 0) = 10
   \<and> priority (irqbuf ex_cpu_if_two ! 1) = 20
   \<and> vgic_v3_highest_priority_pending ex_dist ex_redist ex_cpu_if_two = Some 1"
  by code_simp

text \<open>
  Claim C3, the counterexample. Two schedulable interrupts of priorities 10 and 20 are
  buffered and one list register is inactive: synchronize selects neither, it panics.
\<close>

theorem sync_two_priorities_panics:
  "schedulable ex_dist (vgic_redist ex_hypctx_two) (vpmr_of (vgic_cpu_if ex_hypctx_two))
     (irqbuf (vgic_cpu_if ex_hypctx_two) ! 0)
   \<and> schedulable ex_dist (vgic_redist ex_hypctx_two) (vpmr_of (vgic_cpu_if ex_hypctx_two))
     (irqbuf (vgic_cpu_if ex_hypctx_two) ! 1)
   \<and> priority (irqbuf (vgic_cpu_if ex_hypctx_two) ! 0) = 10
   \<and> priority (irqbuf (vgic_cpu_if ex_hypctx_two) ! 1) = 20
   \<and> irqbuf_num (vgic_cpu_if ex_hypctx_two) = 2
   \<and> length (filter lr_inactive (take (ich_lr_num (vgic_cpu_if ex_hypctx_two))
        (ich_lr_el2 (vgic_cpu_if ex_hypctx_two)))) = 1
   \<and> vgic_v3_sync_hwstate ex_dist ex_hypctx_two = Panic ''reshuffled''"
proof -
  have c: "vgic_cpu_if ex_hypctx_two = ex_cpu_if_two" "vgic_redist ex_hypctx_two = ex_redist"
    by (simp_all add: ex_hypctx_two_def)
  have n: "irqbuf_num ex_cpu_if_two = 2" by (simp add: ex_cpu_if_two_def)
  have "vgic_v3_sync_hwstate ex_dist ex_hypctx_two = Panic ''reshuffled''"
    using ex_two_free n by (simp add: vgic_v3_sync_hwstate_def Let_def c)
  with ex_two_arbitration ex_two_free n show ?thesis unfolding c by simp
qed

text \<open>
  Claim C3, as amended. In the overflow path, when the buffered interrupts are more than
  the inactive list registers, synchronize selects no interrupt for any list register: it
  panics before the arbitration.
\<close>

theorem sync_overflow_panics:
  "length (filter lr_inactive
      (take (ich_lr_num (vgic_cpu_if h)) (ich_lr_el2 (vgic_cpu_if h))))
     < irqbuf_num (vgic_cpu_if h)
   \<Longrightarrow> vgic_v3_sync_hwstate dist h = Panic ''reshuffled''"
  by (auto simp: vgic_v3_sync_hwstate_def Let_def)

theorem sync_overflow_panics_witness:
  "length (filter lr_inactive
      (take (ich_lr_num (vgic_cpu_if ex_hypctx_two)) (ich_lr_el2 (vgic_cpu_if ex_hypctx_two))))
     < irqbuf_num (vgic_cpu_if ex_hypctx_two)
   \<and> vgic_v3_sync_hwstate ex_dist ex_hypctx_two = Panic ''reshuffled''"
proof -
  have c: "vgic_cpu_if ex_hypctx_two = ex_cpu_if_two"
    by (simp add: ex_hypctx_two_def)
  have l: "length (filter lr_inactive
      (take (ich_lr_num (vgic_cpu_if ex_hypctx_two)) (ich_lr_el2 (vgic_cpu_if ex_hypctx_two))))
     < irqbuf_num (vgic_cpu_if ex_hypctx_two)"
    unfolding c using ex_two_free by (simp add: ex_cpu_if_two_def)
  from sync_overflow_panics [OF l] l show ?thesis by blast
qed

text \<open>
  Claim C4, the counterexample. With A (priority 10, device) and B (priority 10,
  timer-clock) buffered and one inactive list register, synchronize places neither: it
  panics.
\<close>

theorem sync_tie_panics:
  "vgic_v3_sync_hwstate ex_dist ex_hypctx_tie = Panic ''reshuffled''"
  using ex_tie_free
  by (simp add: vgic_v3_sync_hwstate_def Let_def ex_hypctx_tie_def) (simp add: ex_cpu_if_tie_def)

text \<open>
  Claim C4, as amended. When the buffer holds two schedulable interrupts of equal priority
  and different delivery types, the arbitration function returns the one whose type has
  the lower ordinal. Synchronize does not get that far: with fewer than two inactive list
  registers it panics.
\<close>

theorem arbitration_tie_break:
  assumes "irqbuf_num (vgic_cpu_if h) = 2" and "a < 2" and "b < 2"
    and "schedulable dist (vgic_redist h) (vpmr_of (vgic_cpu_if h)) (irqbuf (vgic_cpu_if h) ! a)"
    and "schedulable dist (vgic_redist h) (vpmr_of (vgic_cpu_if h)) (irqbuf (vgic_cpu_if h) ! b)"
    and "priority (irqbuf (vgic_cpu_if h) ! a) = priority (irqbuf (vgic_cpu_if h) ! b)"
    and "irqtype_ord (irqtype (irqbuf (vgic_cpu_if h) ! a))
           < irqtype_ord (irqtype (irqbuf (vgic_cpu_if h) ! b))"
  shows "vgic_v3_highest_priority_pending dist (vgic_redist h) (vgic_cpu_if h) = Some a
    \<and> (length (filter lr_inactive
          (take (ich_lr_num (vgic_cpu_if h)) (ich_lr_el2 (vgic_cpu_if h)))) < 2 \<longrightarrow>
        vgic_v3_sync_hwstate dist h = Panic ''reshuffled'')"
proof
  let ?c = "vgic_cpu_if h"
  let ?S = "schedulable dist (vgic_redist h) (vpmr_of ?c)"
  have inv: "arb_inv dist (vgic_redist h) (vpmr_of ?c) (irqbuf ?c) 2
               (vgic_v3_highest_priority_pending dist (vgic_redist h) ?c)"
    using highest_priority_pending_spec [of dist "vgic_redist h" ?c] assms(1) by simp
  show "vgic_v3_highest_priority_pending dist (vgic_redist h) ?c = Some a"
  proof (cases "vgic_v3_highest_priority_pending dist (vgic_redist h) ?c")
    case None
    with inv assms(2,4) show ?thesis by (auto simp: arb_inv_def)
  next
    case (Some m)
    with inv have m: "m < 2" and all: "\<forall>j<2. ?S (irqbuf ?c ! j) \<longrightarrow> outranks (irqbuf ?c ! m) (irqbuf ?c ! j)"
      by (auto simp: arb_inv_def)
    from all assms(2,4) have "outranks (irqbuf ?c ! m) (irqbuf ?c ! a)" by blast
    with assms(6,7) have "m \<noteq> b" by (auto simp: outranks_def)
    moreover from assms(7) have "a \<noteq> b" by auto
    ultimately have "m = a" using m assms(2,3) by arith
    with Some show ?thesis by simp
  qed
  show "length (filter lr_inactive (take (ich_lr_num ?c) (ich_lr_el2 ?c))) < 2 \<longrightarrow>
        vgic_v3_sync_hwstate dist h = Panic ''reshuffled''"
    using assms(1) by (simp add: vgic_v3_sync_hwstate_def Let_def not_le)
qed

theorem arbitration_tie_break_witness:
  "vgic_v3_highest_priority_pending ex_dist (vgic_redist ex_hypctx_tie) (vgic_cpu_if ex_hypctx_tie)
     = Some 1
   \<and> irqtype (irqbuf (vgic_cpu_if ex_hypctx_tie) ! 1) = VGIC_IRQ_CLK
   \<and> irqtype (irqbuf (vgic_cpu_if ex_hypctx_tie) ! 0) = VGIC_IRQ_VIRTIO
   \<and> vgic_v3_sync_hwstate ex_dist ex_hypctx_tie = Panic ''reshuffled''"
proof -
  have c: "vgic_cpu_if ex_hypctx_tie = ex_cpu_if_tie" "vgic_redist ex_hypctx_tie = ex_redist"
    by (simp_all add: ex_hypctx_tie_def)
  have 1: "irqbuf_num (vgic_cpu_if ex_hypctx_tie) = 2" by (simp add: c ex_cpu_if_tie_def)
  have 2: "schedulable ex_dist (vgic_redist ex_hypctx_tie) (vpmr_of (vgic_cpu_if ex_hypctx_tie))
             (irqbuf (vgic_cpu_if ex_hypctx_tie) ! 1)"
    unfolding c by code_simp
  have 3: "schedulable ex_dist (vgic_redist ex_hypctx_tie) (vpmr_of (vgic_cpu_if ex_hypctx_tie))
             (irqbuf (vgic_cpu_if ex_hypctx_tie) ! 0)"
    unfolding c by code_simp
  have 4: "priority (irqbuf (vgic_cpu_if ex_hypctx_tie) ! 1)
             = priority (irqbuf (vgic_cpu_if ex_hypctx_tie) ! 0)"
    unfolding c by code_simp
  have 5: "irqtype_ord (irqtype (irqbuf (vgic_cpu_if ex_hypctx_tie) ! 1))
             < irqtype_ord (irqtype (irqbuf (vgic_cpu_if ex_hypctx_tie) ! 0))"
    unfolding c by code_simp
  have 6: "irqtype (irqbuf (vgic_cpu_if ex_hypctx_tie) ! 1) = VGIC_IRQ_CLK"
    "irqtype (irqbuf (vgic_cpu_if ex_hypctx_tie) ! 0) = VGIC_IRQ_VIRTIO"
    unfolding c by code_simp+
  have 7: "length (filter lr_inactive (take (ich_lr_num (vgic_cpu_if ex_hypctx_tie))
             (ich_lr_el2 (vgic_cpu_if ex_hypctx_tie)))) < 2"
    unfolding c using ex_tie_free by simp
  from arbitration_tie_break [of ex_hypctx_tie 1 0 ex_dist, OF 1 _ _ 2 3 4 5] 6 7
  show ?thesis by simp
qed

subsection \<open>Routing\<close>

text \<open>What the routing query computes, case by case.\<close>

lemma int_target_cases:
  "(i \<le> GIC_LAST_PPI \<longrightarrow> vgic_v3_int_target dist redist i)
   \<and> (\<not> aff_routing_en dist \<longrightarrow> vgic_v3_int_target dist redist i)
   \<and> (\<not> i \<le> GIC_LAST_PPI \<and> aff_routing_en dist
        \<and> gicd_irouter dist (unat i) AND GICD_IROUTER_IRM \<noteq> 0 \<longrightarrow>
        vgic_v3_int_target dist redist i
          = (if gicd_igroupr dist (unat i div 32) AND push_bit (unat i mod 32) 1 \<noteq> 0
             then gicr_ctlr redist AND GICR_CTLR_DPG1NS \<noteq> 0
             else gicr_ctlr redist AND GICR_CTLR_DPG0 \<noteq> 0))
   \<and> (\<not> i \<le> GIC_LAST_PPI \<and> aff_routing_en dist
        \<and> gicd_irouter dist (unat i) AND GICD_IROUTER_IRM = 0 \<longrightarrow>
        vgic_v3_int_target dist redist i
          = (gicd_irouter dist (unat i)
               AND (GICR_TYPER_AFF0 (gicr_typer redist)
                    OR push_bit 8 (GICR_TYPER_AFF1 (gicr_typer redist))
                    OR push_bit 16 (GICR_TYPER_AFF2 (gicr_typer redist))
                    OR push_bit 32 (GICR_TYPER_AFF3 (gicr_typer redist)))
             = (GICR_TYPER_AFF0 (gicr_typer redist)
                    OR push_bit 8 (GICR_TYPER_AFF1 (gicr_typer redist))
                    OR push_bit 16 (GICR_TYPER_AFF2 (gicr_typer redist))
                    OR push_bit 32 (GICR_TYPER_AFF3 (gicr_typer redist)))))"
proof (cases "i \<le> GIC_LAST_PPI")
  case True
  then show ?thesis by (simp add: vgic_v3_int_target_def)
next
  case False
  then have "unat i div 32 \<noteq> 0"
    by (simp add: GIC_LAST_PPI_def not_le word_less_nat_alt)
  with False show ?thesis by (simp add: vgic_v3_int_target_def Let_def)
qed

text \<open>
  Claim C6, at the failing input. Affinity routing is enabled, interrupt 32 is shared and
  not routed 1 of N, its routing register names affinity 0.0.0.1 and the affinity of the
  virtual CPU is 0.0.0.0: the query answers true although the affinities differ. (The
  source tests \<^verbatim>\<open>(irouter & aff) == aff\<close>.)
\<close>

theorem int_target_affinity_mismatch:
  "aff_routing_en ex_dist_route
   \<and> gicd_irouter ex_dist_route 32 AND GICD_IROUTER_IRM = 0
   \<and> gicd_irouter ex_dist_route 32 = 1
   \<and> gicr_typer ex_redist = 0
   \<and> vgic_v3_int_target ex_dist_route ex_redist 32"
  by code_simp

subsection \<open>Setting the priority\<close>

text \<open>
  Claim C7, at the failing input: \<^verbatim>\<open>set_priority(33, 5)\<close>. The first list register of
  CPU 0 holds interrupt 40, pending at priority 0x80, and its priority becomes 5; CPU 1
  has interrupt 33 buffered at priority 0xa0, and it stays at 0xa0.
\<close>

theorem set_priority_wrong_slot_and_cpu:
  "ICH_LR_EL2_VINTID (ich_lr_el2 (vgic_cpu_if (ctx ex_hyp_prio ! 0)) ! 0) = 40
   \<and> lr_pending (ich_lr_el2 (vgic_cpu_if (ctx ex_hyp_prio ! 0)) ! 0)
   \<and> drop_bit 48 (ich_lr_el2 (vgic_cpu_if (ctx ex_hyp_prio ! 0)) ! 0
        AND ICH_LR_EL2_PRIO_MASK) = 0x80
   \<and> drop_bit 48 (ich_lr_el2 (vgic_cpu_if
          (ctx (vgic_v3_irq_set_priority 33 5 ex_hyp_prio 0) ! 0)) ! 0
        AND ICH_LR_EL2_PRIO_MASK) = 5
   \<and> irq (irqbuf (vgic_cpu_if (ctx (vgic_v3_irq_set_priority 33 5 ex_hyp_prio 0) ! 1)) ! 0) = 33
   \<and> priority (irqbuf (vgic_cpu_if
          (ctx (vgic_v3_irq_set_priority 33 5 ex_hyp_prio 0) ! 1)) ! 0) = 0xa0"
  by code_simp


subsection \<open>Removing from the buffer is filtering\<close>

lemma drop_take_Cons:
  "i < n \<Longrightarrow> n \<le> length xs \<Longrightarrow> drop i (take n xs) = xs ! i # drop (Suc i) (take n xs)"
  using Cons_nth_drop_Suc [of i "take n xs"] by simp

lemma take_drop_take:
  "i \<le> n \<Longrightarrow> take i xs @ drop i (take n xs) = take n xs"
  by (metis append_take_drop_id min.absorb1 take_take)

lemma remove_for_spec:
  assumes "dest \<le> frm" "frm \<le> num" "num \<le> length buf"
  shows "case remove_for i frm dest num buf of (frm', dest', buf') \<Rightarrow>
           frm' = num \<and> length buf' = length buf
           \<and> dest' = dest + length (filter (\<lambda>e. irq e \<noteq> i) (drop frm (take num buf)))
           \<and> take dest' buf' = take dest buf @ filter (\<lambda>e. irq e \<noteq> i) (drop frm (take num buf))"
  using assms
proof (induction i frm dest num buf rule: remove_for.induct)
  case (1 i frm dest num buf)
  show ?case
  proof (cases "frm < num")
    case False
    with "1.prems" have "frm = num" by simp
    then show ?thesis by (subst remove_for.simps) simp
  next
    case True
    then have split: "drop frm (take num buf) = buf ! frm # drop (Suc frm) (take num buf)"
      using "1.prems" by (simp add: drop_take_Cons)
    show ?thesis
    proof (cases "irq (buf ! frm) = i")
      case same: True
      from "1.IH"(1) [OF True same] "1.prems" True
      have "case remove_for i (frm + 1) dest num buf of (frm', dest', buf') \<Rightarrow>
           frm' = num \<and> length buf' = length buf
           \<and> dest' = dest + length (filter (\<lambda>e. irq e \<noteq> i) (drop (frm + 1) (take num buf)))
           \<and> take dest' buf' = take dest buf @ filter (\<lambda>e. irq e \<noteq> i) (drop (frm + 1) (take num buf))"
        by simp
      then show ?thesis
        using True same by (subst remove_for.simps) (simp add: split)
    next
      case other: False
      let ?buf = "buf[dest := buf ! frm]"
      have d: "drop (frm + 1) (take num ?buf) = drop (frm + 1) (take num buf)"
        using "1.prems" by (simp add: take_update_swap drop_update_cancel)
      have t: "take (dest + 1) ?buf = take dest buf @ [buf ! frm]"
        using "1.prems" True by (simp add: take_Suc_conv_app_nth)
      from "1.IH"(2) [OF True other] "1.prems" True
      have "case remove_for i (frm + 1) (dest + 1) num ?buf of (frm', dest', buf') \<Rightarrow>
           frm' = num \<and> length buf' = length ?buf
           \<and> dest' = dest + 1 + length (filter (\<lambda>e. irq e \<noteq> i) (drop (frm + 1) (take num ?buf)))
           \<and> take dest' buf' = take (dest + 1) ?buf @ filter (\<lambda>e. irq e \<noteq> i) (drop (frm + 1) (take num ?buf))"
        by simp
      then show ?thesis
        using True other unfolding d t
        by (subst remove_for.simps) (simp add: split)
    qed
  qed
qed

lemma remove_while_spec:
  assumes "dest \<le> irqbuf_num c" "irqbuf_num c \<le> length (irqbuf c)"
    "\<forall>e \<in> set (take dest (irqbuf c)). irq e \<noteq> i"
  shows "snd (remove_while i dest frm c)
           = c\<lparr>irqbuf := irqbuf (snd (remove_while i dest frm c)),
               irqbuf_num := length (filter (\<lambda>e. irq e \<noteq> i) (take (irqbuf_num c) (irqbuf c)))\<rparr>
         \<and> length (irqbuf (snd (remove_while i dest frm c))) = length (irqbuf c)
         \<and> take (length (filter (\<lambda>e. irq e \<noteq> i) (take (irqbuf_num c) (irqbuf c))))
              (irqbuf (snd (remove_while i dest frm c)))
            = filter (\<lambda>e. irq e \<noteq> i) (take (irqbuf_num c) (irqbuf c))"
  using assms
proof (induction "irqbuf_num c - dest" arbitrary: dest frm)
  case 0
  then have eq: "dest = irqbuf_num c" by simp
  with 0 have "filter (\<lambda>e. irq e \<noteq> i) (take (irqbuf_num c) (irqbuf c)) = take (irqbuf_num c) (irqbuf c)"
    by (simp add: filter_id_conv)
  then show ?case
    using eq "0.prems" by (subst (1 2 3 4) remove_while.simps) simp
next
  case (Suc k)
  let ?P = "\<lambda>e. irq e \<noteq> i"
  let ?B = "irqbuf c" and ?N = "irqbuf_num c"
  from Suc have lt: "dest < ?N" by simp
  have split: "take ?N ?B = take dest ?B @ ?B ! dest # drop (Suc dest) (take ?N ?B)"
    using take_drop_take [of dest ?N ?B] drop_take_Cons [of dest ?N ?B] lt Suc.prems(2) by simp
  have pre: "filter ?P (take dest ?B) = take dest ?B"
    using Suc.prems(3) by (simp add: filter_id_conv)
  show ?case
  proof (cases "irq (?B ! dest) = i")
    case False
    have k: "k = ?N - (dest + 1)" using Suc.hyps(2) by simp
    have all: "\<forall>e \<in> set (take (dest + 1) ?B). irq e \<noteq> i"
      using Suc.prems(3) False lt Suc.prems(2) by (auto simp: take_Suc_conv_app_nth)
    have "remove_while i dest frm c = remove_while i (dest + 1) frm c"
      using lt False by (subst remove_while.simps) simp
    with Suc.hyps(1) [OF k _ Suc.prems(2) all, of frm] lt show ?thesis by simp
  next
    case True
    obtain f' d' b' where rf: "remove_for i (dest + 1) dest ?N ?B = (f', d', b')"
      by (cases "remove_for i (dest + 1) dest ?N ?B") auto
    from remove_for_spec [of dest "dest + 1" ?N ?B i] lt Suc.prems(2) rf
    have r: "f' = ?N" "length b' = length ?B"
      "d' = dest + length (filter ?P (drop (dest + 1) (take ?N ?B)))"
      "take d' b' = take dest ?B @ filter ?P (drop (dest + 1) (take ?N ?B))"
      by auto
    have fl: "filter ?P (take ?N ?B) = take dest ?B @ filter ?P (drop (dest + 1) (take ?N ?B))"
      by (subst split) (simp add: pre True)
    have len: "length (filter ?P (take ?N ?B)) = d'"
      using r(3) lt Suc.prems(2) by (simp add: fl)
    have "remove_while i dest frm c = remove_while i d' f' (c\<lparr>irqbuf := b', irqbuf_num := d'\<rparr>)"
      using lt True rf by (subst remove_while.simps) simp
    also have "\<dots> = (f' - d', c\<lparr>irqbuf := b', irqbuf_num := d'\<rparr>)"
      by (subst remove_while.simps) simp
    finally have res: "remove_while i dest frm c = (f' - d', c\<lparr>irqbuf := b', irqbuf_num := d'\<rparr>)" .
    show ?thesis
      unfolding res len using r(2,4) fl by simp
  qed
qed

lemma remove_nolock_filter:
  assumes "irqbuf_num c \<le> length (irqbuf c)"
  shows "snd (vgic_v3_irqbuf_remove_nolock i c)
           = c\<lparr>irqbuf := irqbuf (snd (vgic_v3_irqbuf_remove_nolock i c)),
               irqbuf_num := length (filter (\<lambda>e. irq e \<noteq> i) (take (irqbuf_num c) (irqbuf c)))\<rparr>"
    and "length (irqbuf (snd (vgic_v3_irqbuf_remove_nolock i c))) = length (irqbuf c)"
    and "take (length (filter (\<lambda>e. irq e \<noteq> i) (take (irqbuf_num c) (irqbuf c))))
              (irqbuf (snd (vgic_v3_irqbuf_remove_nolock i c)))
            = filter (\<lambda>e. irq e \<noteq> i) (take (irqbuf_num c) (irqbuf c))"
  using remove_while_spec [of 0 c i "irqbuf_num c"] assms
  unfolding vgic_v3_irqbuf_remove_nolock_def by simp_all

subsection \<open>The loop that fills the list registers\<close>

lemma fill_skip_vips:
  "\<forall>x \<in> set vs. \<not> en x \<Longrightarrow>
     fill_buf en clk (vs @ vips) lrs = vs @ fill_buf en clk vips lrs
     \<and> fill_lrs en clk (vs @ vips) lrs = fill_lrs en clk vips lrs"
proof (induction vs)
  case Nil
  then show ?case by simp
next
  case (Cons v vs)
  then show ?case by (cases lrs; cases vips) auto
qed

lemma fill_skip_lrs:
  "en vip \<Longrightarrow> \<forall>l \<in> set ls. \<not> lr_inactive l \<Longrightarrow>
     fill_buf en clk (vip # vips) (ls @ lrs) = fill_buf en clk (vip # vips) lrs
     \<and> fill_lrs en clk (vip # vips) (ls @ lrs) = ls @ fill_lrs en clk (vip # vips) lrs"
  by (induction ls) auto

lemma fill_none_enabled:
  "\<forall>x \<in> set vs. \<not> en x \<Longrightarrow> fill_buf en clk vs lrs = vs \<and> fill_lrs en clk vs lrs = lrs"
  using fill_skip_vips [of vs en clk "[]" lrs] by simp

lemma fill_none_inactive:
  "en vip \<Longrightarrow> \<forall>l \<in> set ls. \<not> lr_inactive l \<Longrightarrow>
     fill_buf en clk (vip # vips) ls = vip # vips \<and> fill_lrs en clk (vip # vips) ls = ls"
  using fill_skip_lrs [of en vip ls clk vips "[]"] by simp

lemma assign_lrs_Nil [simp]: "assign_lrs lrs [] = lrs"
  by (cases lrs) simp_all

lemma assign_lrs_busy: "\<not> lr_inactive lr \<Longrightarrow> assign_lrs (lr # lrs) vips = lr # assign_lrs lrs vips"
  by (cases vips) simp_all

lemma fill_lrs_assign:
  "fill_lrs en clk vips lrs
     = assign_lrs lrs (filter (\<lambda>v. en v \<and> \<not> (irqtype v = VGIC_IRQ_CLK \<and> clk)) vips)"
  by (induction en clk vips lrs rule: fill_lrs.induct) (auto simp: assign_lrs_busy)

lemma fill_buf_all:
  "length (filter (\<lambda>v. en v \<and> \<not> (irqtype v = VGIC_IRQ_CLK \<and> clk)) vips)
      \<le> length (filter lr_inactive lrs)
   \<Longrightarrow> fill_buf en clk vips lrs
     = map (\<lambda>v. if en v \<and> \<not> (irqtype v = VGIC_IRQ_CLK \<and> clk) then v\<lparr>irq := IRQ_SCHEDULED\<rparr> else v) vips"
proof (induction en clk vips lrs rule: fill_buf.induct)
  case (1 en clk lrs)
  then show ?case by simp
next
  case (2 en clk vip vips)
  let ?P = "\<lambda>v. en v \<and> \<not> (irqtype v = VGIC_IRQ_CLK \<and> clk)"
  from 2 have "filter ?P (vip # vips) = []" by simp
  then have "\<forall>v \<in> set (vip # vips). \<not> ?P v"
    unfolding filter_empty_conv .
  then have "map (\<lambda>v. if ?P v then v\<lparr>irq := IRQ_SCHEDULED\<rparr> else v) (vip # vips) = vip # vips"
    by (intro map_idI) auto
  then show ?case by simp
next
  case (3 en clk vip vips lr lrs)
  then show ?case by (auto split: if_splits)
qed

lemma assign_lrs_nth:
  "length (assign_lrs lrs vips) = length lrs
   \<and> (\<forall>i < length lrs. assign_lrs lrs vips ! i = lrs ! i
         \<or> (lr_inactive (lrs ! i) \<and> (\<exists>v \<in> set vips. assign_lrs lrs vips ! i = vip_to_lr v)))"
proof (induction lrs vips rule: assign_lrs.induct)
  case (3 lr lrs vip vips)
  then show ?case by (auto simp: nth_Cons split: nat.splits)
qed simp_all

lemma drop_take_split:
  assumes "s \<le> i" "i < n" "n \<le> length xs"
  shows "drop s (take n xs) = drop s (take i xs) @ xs ! i # drop (Suc i) (take n xs)"
proof -
  have "take n xs = take i xs @ xs ! i # drop (Suc i) (take n xs)"
    using take_drop_take [of i n xs] drop_take_Cons [of i n xs] assms by simp
  then have "drop s (take n xs) = drop s (take i xs @ xs ! i # drop (Suc i) (take n xs))"
    by simp
  then show ?thesis using assms by simp
qed

lemma next_enabled_unfold:
  "vgic_v3_irqbuf_next_enabled buf s e dist redist c =
     (if s < e then
        (if deliverable dist redist (ich_vmcr_el2 c) (buf ! s) then Some s
         else vgic_v3_irqbuf_next_enabled buf (Suc s) e dist redist c)
      else None)"
  by (subst vgic_v3_irqbuf_next_enabled.simps) (auto simp: deliverable_def Let_def)

lemma next_enabled_None:
  "vgic_v3_irqbuf_next_enabled buf s e dist redist c = None \<Longrightarrow> e \<le> length buf \<Longrightarrow>
     \<forall>x \<in> set (drop s (take e buf)). \<not> deliverable dist redist (ich_vmcr_el2 c) x"
proof (induction "e - s" arbitrary: s)
  case 0
  then show ?case by simp
next
  case (Suc k)
  then have lt: "s < e" and k: "k = e - Suc s" by auto
  from Suc.prems(1) lt have nd: "\<not> deliverable dist redist (ich_vmcr_el2 c) (buf ! s)"
    and rest: "vgic_v3_irqbuf_next_enabled buf (Suc s) e dist redist c = None"
    by (subst (asm) next_enabled_unfold, simp split: if_splits)+
  from Suc.hyps(1) [OF k rest Suc.prems(2)] nd show ?case
    by (simp add: drop_take_Cons [OF lt Suc.prems(2)])
qed

lemma next_enabled_Some:
  "vgic_v3_irqbuf_next_enabled buf s e dist redist c = Some i \<Longrightarrow> e \<le> length buf \<Longrightarrow>
     s \<le> i \<and> i < e \<and> deliverable dist redist (ich_vmcr_el2 c) (buf ! i)
     \<and> (\<forall>x \<in> set (drop s (take i buf)). \<not> deliverable dist redist (ich_vmcr_el2 c) x)"
proof (induction "e - s" arbitrary: s)
  case 0
  then show ?case by (subst (asm) next_enabled_unfold) simp
next
  case (Suc k)
  then have lt: "s < e" and k: "k = e - Suc s" by auto
  show ?case
  proof (cases "deliverable dist redist (ich_vmcr_el2 c) (buf ! s)")
    case True
    with Suc.prems(1) lt have "i = s"
      by (subst (asm) next_enabled_unfold) simp
    with True lt show ?thesis by simp
  next
    case False
    with Suc.prems(1) lt
    have rest: "vgic_v3_irqbuf_next_enabled buf (Suc s) e dist redist c = Some i"
      by (subst (asm) next_enabled_unfold) simp
    from Suc.hyps(1) [OF k rest Suc.prems(2)]
    have ih: "Suc s \<le> i \<and> i < e \<and> deliverable dist redist (ich_vmcr_el2 c) (buf ! i)
     \<and> (\<forall>x \<in> set (drop (Suc s) (take i buf)). \<not> deliverable dist redist (ich_vmcr_el2 c) x)" .
    then have "s < i" "i \<le> length buf" using Suc.prems(2) by auto
    from drop_take_Cons [OF this] ih False show ?thesis by simp
  qed
qed

lemma lr_next_inactive_None:
  "vgic_v3_lr_next_inactive lrs s e = None \<Longrightarrow> e \<le> length lrs \<Longrightarrow>
     \<forall>x \<in> set (drop s (take e lrs)). \<not> lr_inactive x"
proof (induction lrs s e rule: vgic_v3_lr_next_inactive.induct)
  case (1 lrs start endx)
  show ?case
  proof (cases "start < endx")
    case False
    then show ?thesis by simp
  next
    case True
    from "1.prems"(1) True have nd: "\<not> lr_inactive (lrs ! start)"
      and rest: "vgic_v3_lr_next_inactive lrs (start + 1) endx = None"
      by (subst (asm) vgic_v3_lr_next_inactive.simps, auto split: if_splits)+
    from "1.IH" [OF True nd rest "1.prems"(2)] nd show ?thesis
      by (simp add: drop_take_Cons [OF True "1.prems"(2)])
  qed
qed

lemma lr_next_inactive_Some:
  "vgic_v3_lr_next_inactive lrs s e = Some i \<Longrightarrow> e \<le> length lrs \<Longrightarrow>
     s \<le> i \<and> i < e \<and> lr_inactive (lrs ! i) \<and> (\<forall>x \<in> set (drop s (take i lrs)). \<not> lr_inactive x)"
proof (induction lrs s e rule: vgic_v3_lr_next_inactive.induct)
  case (1 lrs start endx)
  from "1.prems"(1) have True: "start < endx"
    by (subst (asm) vgic_v3_lr_next_inactive.simps) (simp split: if_splits)
  show ?case
  proof (cases "lr_inactive (lrs ! start)")
    case d: True
    with "1.prems"(1) True have "i = start"
      by (subst (asm) vgic_v3_lr_next_inactive.simps) (auto split: if_splits)
    with d True show ?thesis by simp
  next
    case nd: False
    with "1.prems"(1) True
    have rest: "vgic_v3_lr_next_inactive lrs (start + 1) endx = Some i"
      by (subst (asm) vgic_v3_lr_next_inactive.simps) (auto split: if_splits)
    from "1.IH" [OF True nd rest "1.prems"(2)]
    have ih: "start + 1 \<le> i \<and> i < endx \<and> lr_inactive (lrs ! i)
     \<and> (\<forall>x \<in> set (drop (start + 1) (take i lrs)). \<not> lr_inactive x)" .
    then have "start < i" "i \<le> length lrs" using "1.prems"(2) by auto
    from drop_take_Cons [OF this] ih nd show ?thesis by simp
  qed
qed

lemma take_Suc_update:
  "i < length xs \<Longrightarrow> take (Suc i) (xs[i := v]) = take i xs @ [v]"
  using take_Suc_conv_app_nth [of i "xs[i := v]"] by simp

lemma irqbuf_to_lr_loop_fill:
  assumes "bi \<le> irqbuf_num c" "irqbuf_num c \<le> length (irqbuf c)"
    "li \<le> ich_lr_num c" "ich_lr_num c \<le> length (ich_lr_el2 c)"
  shows "irqbuf_to_lr_loop dist redist clk bi li c =
     c\<lparr>ich_lr_el2 := take li (ich_lr_el2 c)
          @ fill_lrs (deliverable dist redist (ich_vmcr_el2 c)) clk
              (drop bi (take (irqbuf_num c) (irqbuf c)))
              (drop li (take (ich_lr_num c) (ich_lr_el2 c)))
          @ drop (ich_lr_num c) (ich_lr_el2 c),
       irqbuf := take bi (irqbuf c)
          @ fill_buf (deliverable dist redist (ich_vmcr_el2 c)) clk
              (drop bi (take (irqbuf_num c) (irqbuf c)))
              (drop li (take (ich_lr_num c) (ich_lr_el2 c)))
          @ drop (irqbuf_num c) (irqbuf c)\<rparr>"
  using assms
proof (induction dist redist clk bi li c rule: irqbuf_to_lr_loop.induct)
  case (1 dist redist clk bi li c)
  let ?B = "irqbuf c" and ?N = "irqbuf_num c" and ?L = "ich_lr_el2 c" and ?M = "ich_lr_num c"
  let ?en = "deliverable dist redist (ich_vmcr_el2 c)"
  let ?es = "drop bi (take ?N ?B)" and ?ls = "drop li (take ?M ?L)"
  have idB: "take bi ?B @ ?es @ drop ?N ?B = ?B"
    using take_drop_take [of bi ?N ?B] "1.prems"(1)
    by (metis append.assoc append_take_drop_id)
  have idL: "take li ?L @ ?ls @ drop ?M ?L = ?L"
    using take_drop_take [of li ?M ?L] "1.prems"(3)
    by (metis append.assoc append_take_drop_id)
  show ?case
  proof (cases "vgic_v3_irqbuf_next_enabled ?B bi ?N dist redist c")
    case None
    then have loop: "irqbuf_to_lr_loop dist redist clk bi li c = c"
      by (subst irqbuf_to_lr_loop.simps) simp
    from next_enabled_None [OF None "1.prems"(2)]
    have "fill_buf ?en clk ?es ?ls = ?es \<and> fill_lrs ?en clk ?es ?ls = ?ls"
      using fill_none_enabled [of ?es ?en clk ?ls] by blast
    then show ?thesis unfolding loop by (simp add: idB idL)
  next
    case (Some i)
    from next_enabled_Some [OF Some "1.prems"(2)]
    have i: "bi \<le> i" "i < ?N" "?en (?B ! i)"
      and skip: "\<forall>x \<in> set (drop bi (take i ?B)). \<not> ?en x" by auto
    let ?e = "?B ! i" and ?es1 = "drop bi (take i ?B)" and ?es2 = "drop (Suc i) (take ?N ?B)"
    have es: "?es = ?es1 @ ?e # ?es2"
      by (rule drop_take_split [OF i(1,2) "1.prems"(2)])
    have f1: "fill_buf ?en clk ?es ?ls = ?es1 @ fill_buf ?en clk (?e # ?es2) ?ls"
      "fill_lrs ?en clk ?es ?ls = fill_lrs ?en clk (?e # ?es2) ?ls"
      unfolding es using fill_skip_vips [of ?es1 ?en clk "?e # ?es2" ?ls] skip by blast+
    show ?thesis
    proof (cases "vgic_v3_lr_next_inactive ?L li ?M")
      case None
      then have loop: "irqbuf_to_lr_loop dist redist clk bi li c = c"
        using Some by (subst irqbuf_to_lr_loop.simps) simp
      from lr_next_inactive_None [OF None "1.prems"(4)] i(3)
      have "fill_buf ?en clk (?e # ?es2) ?ls = ?e # ?es2 \<and> fill_lrs ?en clk (?e # ?es2) ?ls = ?ls"
        using fill_none_inactive [of ?en ?e ?ls clk ?es2] by blast
      with f1 es have "fill_buf ?en clk ?es ?ls = ?es \<and> fill_lrs ?en clk ?es ?ls = ?ls"
        by simp
      then show ?thesis unfolding loop by (simp add: idB idL)
    next
      case lr: (Some j)
      from lr_next_inactive_Some [OF lr "1.prems"(4)]
      have j: "li \<le> j" "j < ?M" "lr_inactive (?L ! j)"
        and skipl: "\<forall>x \<in> set (drop li (take j ?L)). \<not> lr_inactive x" by auto
      let ?l = "?L ! j" and ?ls1 = "drop li (take j ?L)" and ?ls2 = "drop (Suc j) (take ?M ?L)"
      have ls: "?ls = ?ls1 @ ?l # ?ls2"
        by (rule drop_take_split [OF j(1,2) "1.prems"(4)])
      have f2: "fill_buf ?en clk (?e # ?es2) ?ls = fill_buf ?en clk (?e # ?es2) (?l # ?ls2)"
        "fill_lrs ?en clk (?e # ?es2) ?ls = ?ls1 @ fill_lrs ?en clk (?e # ?es2) (?l # ?ls2)"
        unfolding ls using fill_skip_lrs [of ?en ?e ?ls1 clk ?es2 "?l # ?ls2"] i(3) skipl
        by blast+
      have tB: "take bi ?B @ ?es1 @ zs = take i ?B @ zs" for zs
        using take_drop_take [OF i(1), of ?B] by (metis append.assoc)
      have tL: "take li ?L @ ?ls1 @ zs = take j ?L @ zs" for zs
        using take_drop_take [OF j(1), of ?L] by (metis append.assoc)
      have sB: "take (Suc i) ?B = take i ?B @ [?e]"
        using i(2) "1.prems"(2) by (simp add: take_Suc_conv_app_nth)
      have sL: "take (Suc j) ?L = take j ?L @ [?l]"
        using j(2) "1.prems"(4) by (simp add: take_Suc_conv_app_nth)
      show ?thesis
      proof (cases "irqtype ?e = VGIC_IRQ_CLK \<and> clk")
        case True
        have loop: "irqbuf_to_lr_loop dist redist clk bi li c
                      = irqbuf_to_lr_loop dist redist clk (i + 1) j c"
          using Some lr True by (subst irqbuf_to_lr_loop.simps) (simp add: Let_def)
        have dj: "drop j (take ?M ?L) = ?l # ?ls2"
          by (rule drop_take_Cons [OF j(2) "1.prems"(4)])
        have f3: "fill_buf ?en clk (?e # ?es2) (?l # ?ls2) = ?e # fill_buf ?en clk ?es2 (?l # ?ls2)"
          "fill_lrs ?en clk (?e # ?es2) (?l # ?ls2) = fill_lrs ?en clk ?es2 (?l # ?ls2)"
          using i(3) j(3) True by simp_all
        have ih: "irqbuf_to_lr_loop dist redist clk (i + 1) j c =
          c\<lparr>ich_lr_el2 := take j ?L @ fill_lrs ?en clk ?es2 (?l # ?ls2) @ drop ?M ?L,
            irqbuf := take (Suc i) ?B @ fill_buf ?en clk ?es2 (?l # ?ls2) @ drop ?N ?B\<rparr>"
          using "1.IH"(1) [OF Some lr refl True] i(2) j(2) "1.prems"(2,4) dj by simp
        show ?thesis
          unfolding loop ih f1 f2 f3 sB
          by (simp add: tB tL)
      next
        case False
        let ?c' = "c\<lparr>ich_lr_el2 := ?L[j := vip_to_lr ?e],
                     irqbuf := ?B[i := ?e\<lparr>irq := IRQ_SCHEDULED\<rparr>]\<rparr>"
        have loop: "irqbuf_to_lr_loop dist redist clk bi li c
                      = irqbuf_to_lr_loop dist redist clk (i + 1) (j + 1) ?c'"
          using Some lr False by (subst irqbuf_to_lr_loop.simps) (auto simp: Let_def)
        have f3: "fill_buf ?en clk (?e # ?es2) (?l # ?ls2)
                    = ?e\<lparr>irq := IRQ_SCHEDULED\<rparr> # fill_buf ?en clk ?es2 ?ls2"
          "fill_lrs ?en clk (?e # ?es2) (?l # ?ls2) = vip_to_lr ?e # fill_lrs ?en clk ?es2 ?ls2"
          using i(3) j(3) False by auto
        have uB: "drop (Suc i) (take ?N (?B[i := ?e\<lparr>irq := IRQ_SCHEDULED\<rparr>])) = ?es2"
          "take (Suc i) (?B[i := ?e\<lparr>irq := IRQ_SCHEDULED\<rparr>]) = take i ?B @ [?e\<lparr>irq := IRQ_SCHEDULED\<rparr>]"
          "drop ?N (?B[i := ?e\<lparr>irq := IRQ_SCHEDULED\<rparr>]) = drop ?N ?B"
          using i(2) "1.prems"(2)
          by (simp add: take_update_swap, simp add: take_Suc_update, simp)
        have uL: "drop (Suc j) (take ?M (?L[j := vip_to_lr ?e])) = ?ls2"
          "take (Suc j) (?L[j := vip_to_lr ?e]) = take j ?L @ [vip_to_lr ?e]"
          "drop ?M (?L[j := vip_to_lr ?e]) = drop ?M ?L"
          using j(2) "1.prems"(4)
          by (simp add: take_update_swap, simp add: take_Suc_update, simp)
        have ih: "irqbuf_to_lr_loop dist redist clk (i + 1) (j + 1) ?c' =
          c\<lparr>ich_lr_el2 := (take j ?L @ [vip_to_lr ?e]) @ fill_lrs ?en clk ?es2 ?ls2 @ drop ?M ?L,
            irqbuf := (take i ?B @ [?e\<lparr>irq := IRQ_SCHEDULED\<rparr>]) @ fill_buf ?en clk ?es2 ?ls2
                        @ drop ?N ?B\<rparr>"
          using "1.IH"(2) [OF Some lr refl False] i(2) j(2) "1.prems"(2,4)
          by (simp add: uB uL)
        show ?thesis
          unfolding loop ih f1 f2 f3
          by (simp add: tB tL)
      qed
    qed
  qed
qed


lemma filter_marked_clk:
  "\<forall>e \<in> set vips. irqtype e = VGIC_IRQ_CLK \<longrightarrow> \<not> E e \<and> irq e \<noteq> IRQ_SCHEDULED \<Longrightarrow>
     filter (\<lambda>e. irqtype e = VGIC_IRQ_CLK) (filter (\<lambda>e. irq e \<noteq> IRQ_SCHEDULED)
       (map (\<lambda>v. if E v then v\<lparr>irq := IRQ_SCHEDULED\<rparr> else v) vips))
     = filter (\<lambda>e. irqtype e = VGIC_IRQ_CLK) vips"
  by (induction vips) auto

lemma irqbuf_to_lr_spec:
  fixes dist :: vgic_v3_dist and redist :: vgic_v3_redist and c :: vgic_v3_cpu_if
  assumes wf: "irqbuf_num c \<le> length (irqbuf c)" "ich_lr_num c \<le> length (ich_lr_el2 c)"
    and fits: "irqbuf_num c
                 \<le> length (filter lr_inactive (take (ich_lr_num c) (ich_lr_el2 c)))"
  defines "E \<equiv> eligible dist redist (ich_vmcr_el2 c) (clk_injected_scan c)"
    and "B \<equiv> take (irqbuf_num c) (irqbuf c)"
  defines "K \<equiv> filter (\<lambda>e. irq e \<noteq> IRQ_SCHEDULED)
                  (map (\<lambda>v. if E v then v\<lparr>irq := IRQ_SCHEDULED\<rparr> else v) B)"
  shows "ich_lr_el2 (vgic_v3_irqbuf_to_lr dist redist c)
           = assign_lrs (take (ich_lr_num c) (ich_lr_el2 c)) (filter E B)
               @ drop (ich_lr_num c) (ich_lr_el2 c)"
    and "irqbuf_num (vgic_v3_irqbuf_to_lr dist redist c) = length K"
    and "take (length K) (irqbuf (vgic_v3_irqbuf_to_lr dist redist c)) = K"
    and "length (irqbuf (vgic_v3_irqbuf_to_lr dist redist c)) = length (irqbuf c)"
    and "ich_lr_num (vgic_v3_irqbuf_to_lr dist redist c) = ich_lr_num c"
    and "ich_vmcr_el2 (vgic_v3_irqbuf_to_lr dist redist c) = ich_vmcr_el2 c"
    and "irqbuf_size (vgic_v3_irqbuf_to_lr dist redist c) = irqbuf_size c"
    and "take (irqbuf_num c) (irqbuf (irqbuf_to_lr_loop dist redist (clk_injected_scan c) 0 0 c))
           = map (\<lambda>v. if E v then v\<lparr>irq := IRQ_SCHEDULED\<rparr> else v) B"
proof -
  let ?clk = "clk_injected_scan c"
  let ?en = "deliverable dist redist (ich_vmcr_el2 c)"
  let ?L = "take (ich_lr_num c) (ich_lr_el2 c)"
  let ?c1 = "irqbuf_to_lr_loop dist redist ?clk 0 0 c"
  have E: "E = (\<lambda>v. ?en v \<and> \<not> (irqtype v = VGIC_IRQ_CLK \<and> ?clk))"
    by (simp add: E_def eligible_def fun_eq_iff)
  have "length (filter E B) \<le> length B" by simp
  also have "\<dots> = irqbuf_num c" using wf(1) by (simp add: B_def)
  finally have cnt: "length (filter E B) \<le> length (filter lr_inactive ?L)"
    using fits by simp
  have fb: "fill_buf ?en ?clk B ?L = map (\<lambda>v. if E v then v\<lparr>irq := IRQ_SCHEDULED\<rparr> else v) B"
    using fill_buf_all [of ?en ?clk B ?L] cnt unfolding E by simp
  have fl: "fill_lrs ?en ?clk B ?L = assign_lrs ?L (filter E B)"
    using fill_lrs_assign [of ?en ?clk B ?L] unfolding E by simp
  have c1: "?c1 = c\<lparr>ich_lr_el2 := assign_lrs ?L (filter E B) @ drop (ich_lr_num c) (ich_lr_el2 c),
                     irqbuf := map (\<lambda>v. if E v then v\<lparr>irq := IRQ_SCHEDULED\<rparr> else v) B
                                 @ drop (irqbuf_num c) (irqbuf c)\<rparr>"
    using irqbuf_to_lr_loop_fill [of 0 c 0 dist redist ?clk] wf
    by (simp add: fb [unfolded B_def] fl [unfolded B_def] B_def)
  have n1: "irqbuf_num ?c1 = irqbuf_num c" and l1: "length (irqbuf ?c1) = length (irqbuf c)"
    and t1: "take (irqbuf_num ?c1) (irqbuf ?c1)
               = map (\<lambda>v. if E v then v\<lparr>irq := IRQ_SCHEDULED\<rparr> else v) B"
    using wf(1) by (simp_all add: c1 B_def)
  have wf1: "irqbuf_num ?c1 \<le> length (irqbuf ?c1)" using wf(1) n1 l1 by simp
  have res: "vgic_v3_irqbuf_to_lr dist redist c
               = snd (vgic_v3_irqbuf_remove_nolock IRQ_SCHEDULED ?c1)"
    by (simp add: vgic_v3_irqbuf_to_lr_def Let_def)
  note rm = remove_nolock_filter [OF wf1, of IRQ_SCHEDULED, unfolded t1, folded K_def res]
  from rm(1) have eq: "vgic_v3_irqbuf_to_lr dist redist c
      = ?c1\<lparr>irqbuf := irqbuf (vgic_v3_irqbuf_to_lr dist redist c), irqbuf_num := length K\<rparr>" .
  show "irqbuf_num (vgic_v3_irqbuf_to_lr dist redist c) = length K"
    by (subst eq) simp
  show "take (length K) (irqbuf (vgic_v3_irqbuf_to_lr dist redist c)) = K"
    by (rule rm(3))
  show "length (irqbuf (vgic_v3_irqbuf_to_lr dist redist c)) = length (irqbuf c)"
    using rm(2) l1 by simp
  show "ich_lr_el2 (vgic_v3_irqbuf_to_lr dist redist c)
           = assign_lrs ?L (filter E B) @ drop (ich_lr_num c) (ich_lr_el2 c)"
    by (subst eq) (simp add: c1)
  show "ich_lr_num (vgic_v3_irqbuf_to_lr dist redist c) = ich_lr_num c"
    by (subst eq) (simp add: c1)
  show "ich_vmcr_el2 (vgic_v3_irqbuf_to_lr dist redist c) = ich_vmcr_el2 c"
    by (subst eq) (simp add: c1)
  show "irqbuf_size (vgic_v3_irqbuf_to_lr dist redist c) = irqbuf_size c"
    by (subst eq) (simp add: c1)
  show "take (irqbuf_num c) (irqbuf ?c1)
           = map (\<lambda>v. if E v then v\<lparr>irq := IRQ_SCHEDULED\<rparr> else v) B"
    using t1 n1 by simp
qed

subsection \<open>The fast path of synchronize and the timer guard\<close>




lemma list_ex_take:
  "n \<le> length xs \<Longrightarrow> list_ex P (take n xs) \<longleftrightarrow> (\<exists>i<n. P (xs ! i))"
  by (auto simp: list_ex_length)


lemma ex_resident_to_lr:
  "vgic_v3_irqbuf_to_lr ex_dist ex_redist ex_cpu_if_resident = ex_cpu_if_placed"
  by code_simp

lemma ex_resident_free:
  "length (filter lr_inactive
     (take (ich_lr_num ex_cpu_if_resident) (ich_lr_el2 ex_cpu_if_resident))) = 3"
  by code_simp

text \<open>
  Claim C5, at the failing input. The timer interrupt of the VM is 30
  (\<^verbatim>\<open>vtimer_inject_irq\<close> injects \<^verbatim>\<open>hyp->vtimer.phys_ns_irq\<close> with the type
  timer-clock). The first list register holds interrupt 30 in the active state, an enabled
  timer-clock interrupt 30 is buffered, three list registers are inactive. The pass writes
  the buffered timer interrupt as pending into the second list register and takes it out
  of the buffer: the scan of the list registers looks for the literal interrupt ID 27
  (\<^verbatim>\<open>ICH_LR_EL2_VINTID(lr) == 27\<close>), not for the timer interrupt of the VM.
\<close>

theorem sync_places_timer_while_resident:
  "phys_ns_irq (vtimer ex_hyp_resident) = 30
   \<and> ICH_LR_EL2_VINTID (ich_lr_el2 (vgic_cpu_if (ctx ex_hyp_resident ! 0)) ! 0)
       = ucast (phys_ns_irq (vtimer ex_hyp_resident))
   \<and> lr_active (ich_lr_el2 (vgic_cpu_if (ctx ex_hyp_resident ! 0)) ! 0)
   \<and> \<not> lr_inactive (ich_lr_el2 (vgic_cpu_if (ctx ex_hyp_resident ! 0)) ! 0)
   \<and> irqbuf_num (vgic_cpu_if (ctx ex_hyp_resident ! 0)) = 1
   \<and> irqbuf (vgic_cpu_if (ctx ex_hyp_resident ! 0)) ! 0 = ex_irq_clk
   \<and> irq ex_irq_clk = phys_ns_irq (vtimer ex_hyp_resident)
   \<and> irqtype ex_irq_clk = VGIC_IRQ_CLK
   \<and> vgic_v3_sync_hwstate (vgic_dist ex_hyp_resident) (ctx ex_hyp_resident ! 0)
       = Return ex_hypctx_placed
   \<and> ich_lr_el2 (vgic_cpu_if ex_hypctx_placed) ! 1 = vip_to_lr ex_irq_clk
   \<and> irqbuf_num (vgic_cpu_if ex_hypctx_placed) = 0"
proof -
  have "vgic_v3_sync_hwstate (vgic_dist ex_hyp_resident) (ctx ex_hyp_resident ! 0)
          = Return ex_hypctx_placed"
    using ex_resident_free ex_resident_to_lr
    by (simp add: vgic_v3_sync_hwstate_def Let_def ex_hyp_resident_def ex_hypctx_placed_def)
       (simp add: ex_cpu_if_resident_def)
  moreover have "phys_ns_irq (vtimer ex_hyp_resident) = 30
   \<and> ICH_LR_EL2_VINTID (ich_lr_el2 (vgic_cpu_if (ctx ex_hyp_resident ! 0)) ! 0)
       = ucast (phys_ns_irq (vtimer ex_hyp_resident))
   \<and> lr_active (ich_lr_el2 (vgic_cpu_if (ctx ex_hyp_resident ! 0)) ! 0)
   \<and> \<not> lr_inactive (ich_lr_el2 (vgic_cpu_if (ctx ex_hyp_resident ! 0)) ! 0)
   \<and> irqbuf_num (vgic_cpu_if (ctx ex_hyp_resident ! 0)) = 1
   \<and> irqbuf (vgic_cpu_if (ctx ex_hyp_resident ! 0)) ! 0 = ex_irq_clk
   \<and> irq ex_irq_clk = phys_ns_irq (vtimer ex_hyp_resident)
   \<and> irqtype ex_irq_clk = VGIC_IRQ_CLK
   \<and> ich_lr_el2 (vgic_cpu_if ex_hypctx_placed) ! 1 = vip_to_lr ex_irq_clk
   \<and> irqbuf_num (vgic_cpu_if ex_hypctx_placed) = 0"
    by code_simp
  ultimately show ?thesis by simp
qed

text \<open>
  What the scan does ensure. If at the start of a pass a list register holds interrupt 27
  (the ID the scan looks for) in a state other than inactive, then the pass either panics
  (overflow, nothing is placed) or returns with the timer-clock interrupts of the buffer
  exactly as they were, and every list register is as before or holds a buffered interrupt
  that is not of type timer-clock. (A timer-clock interrupt is assumed not to carry the
  sentinel ID.)
\<close>

theorem timer_guard:
  assumes "irqbuf_num (vgic_cpu_if h) \<le> length (irqbuf (vgic_cpu_if h))"
    and "ich_lr_num (vgic_cpu_if h) \<le> length (ich_lr_el2 (vgic_cpu_if h))"
    and "\<forall>e \<in> set (take (irqbuf_num (vgic_cpu_if h)) (irqbuf (vgic_cpu_if h))).
           irqtype e = VGIC_IRQ_CLK \<longrightarrow> irq e \<noteq> IRQ_SCHEDULED"
    and "\<exists>i < ich_lr_num (vgic_cpu_if h).
           ICH_LR_EL2_VINTID (ich_lr_el2 (vgic_cpu_if h) ! i) = 27
           \<and> \<not> lr_inactive (ich_lr_el2 (vgic_cpu_if h) ! i)"
  shows "vgic_v3_sync_hwstate dist h = Panic ''reshuffled''
    \<or> (\<exists>h'. vgic_v3_sync_hwstate dist h = Return h'
          \<and> filter (\<lambda>e. irqtype e = VGIC_IRQ_CLK)
               (take (irqbuf_num (vgic_cpu_if h')) (irqbuf (vgic_cpu_if h')))
             = filter (\<lambda>e. irqtype e = VGIC_IRQ_CLK)
                 (take (irqbuf_num (vgic_cpu_if h)) (irqbuf (vgic_cpu_if h)))
          \<and> length (ich_lr_el2 (vgic_cpu_if h')) = length (ich_lr_el2 (vgic_cpu_if h))
          \<and> (\<forall>i < length (ich_lr_el2 (vgic_cpu_if h)).
                ich_lr_el2 (vgic_cpu_if h') ! i = ich_lr_el2 (vgic_cpu_if h) ! i
                \<or> (\<exists>e \<in> set (take (irqbuf_num (vgic_cpu_if h)) (irqbuf (vgic_cpu_if h))).
                      irqtype e \<noteq> VGIC_IRQ_CLK
                      \<and> ich_lr_el2 (vgic_cpu_if h') ! i = vip_to_lr e)))"
proof -
  let ?c = "vgic_cpu_if h"
  let ?B = "take (irqbuf_num ?c) (irqbuf ?c)"
  let ?L = "take (ich_lr_num ?c) (ich_lr_el2 ?c)"
  let ?E = "eligible dist (vgic_redist h) (ich_vmcr_el2 ?c) (clk_injected_scan ?c)"
  let ?c' = "vgic_v3_irqbuf_to_lr dist (vgic_redist h) ?c"
  have clk: "clk_injected_scan ?c"
    using assms(4) by (simp add: clk_injected_scan_def list_ex_take [OF assms(2)])
  then have notclk: "?E e \<Longrightarrow> irqtype e \<noteq> VGIC_IRQ_CLK" for e
    by (simp add: eligible_def)
  consider (empty) "irqbuf_num ?c = 0"
    | (fast) "irqbuf_num ?c \<noteq> 0" "irqbuf_num ?c \<le> length (filter lr_inactive ?L)"
    | (over) "irqbuf_num ?c \<noteq> 0" "\<not> irqbuf_num ?c \<le> length (filter lr_inactive ?L)"
    by blast
  then show ?thesis
  proof cases
    case empty
    then have "vgic_v3_sync_hwstate dist h = Return h"
      by (simp add: vgic_v3_sync_hwstate_def)
    then show ?thesis by simp
  next
    case over
    then have "vgic_v3_sync_hwstate dist h = Panic ''reshuffled''"
      by (simp add: vgic_v3_sync_hwstate_def Let_def)
    then show ?thesis by simp
  next
    case fast
    then have ret: "vgic_v3_sync_hwstate dist h = Return (h\<lparr>vgic_cpu_if := ?c'\<rparr>)"
      by (simp add: vgic_v3_sync_hwstate_def Let_def)
    note sp = irqbuf_to_lr_spec [OF assms(1,2) fast(2), of dist "vgic_redist h"]
    have keep: "\<forall>e \<in> set ?B. irqtype e = VGIC_IRQ_CLK \<longrightarrow> \<not> ?E e \<and> irq e \<noteq> IRQ_SCHEDULED"
      using assms(3) notclk by blast
    have buf: "filter (\<lambda>e. irqtype e = VGIC_IRQ_CLK) (take (irqbuf_num ?c') (irqbuf ?c'))
                 = filter (\<lambda>e. irqtype e = VGIC_IRQ_CLK) ?B"
      unfolding sp(2) sp(3) by (rule filter_marked_clk [OF keep])
    have split: "ich_lr_el2 ?c = ?L @ drop (ich_lr_num ?c) (ich_lr_el2 ?c)" by simp
    note an = assign_lrs_nth [of ?L "filter ?E ?B"]
    have len: "length (ich_lr_el2 ?c') = length (ich_lr_el2 ?c)"
      unfolding sp(1) using an assms(2) by simp
    have lrs: "ich_lr_el2 ?c' ! i = ich_lr_el2 ?c ! i
                \<or> (\<exists>e \<in> set ?B. irqtype e \<noteq> VGIC_IRQ_CLK \<and> ich_lr_el2 ?c' ! i = vip_to_lr e)"
      if "i < length (ich_lr_el2 ?c)" for i
    proof (cases "i < ich_lr_num ?c")
      case True
      then have i: "i < length ?L" using assms(2) by simp
      have l: "ich_lr_el2 ?c' ! i = assign_lrs ?L (filter ?E ?B) ! i"
        unfolding sp(1) using i an by (simp add: nth_append)
      from an i have "assign_lrs ?L (filter ?E ?B) ! i = ?L ! i
          \<or> (\<exists>v \<in> set (filter ?E ?B). assign_lrs ?L (filter ?E ?B) ! i = vip_to_lr v)"
        by blast
      then show ?thesis
        unfolding l using True notclk by auto
    next
      case False
      then have "ich_lr_el2 ?c' ! i = ich_lr_el2 ?c ! i"
        unfolding sp(1) using an assms(2) that by (simp add: nth_append)
      then show ?thesis by simp
    qed
    show ?thesis
      unfolding ret using buf len lrs by simp
  qed
qed


lemma ex_fast_hyps:
  "irqbuf_num (vgic_cpu_if ex_hypctx_fast) \<le> length (irqbuf (vgic_cpu_if ex_hypctx_fast))"
  "ich_lr_num (vgic_cpu_if ex_hypctx_fast) \<le> length (ich_lr_el2 (vgic_cpu_if ex_hypctx_fast))"
  "\<forall>e \<in> set (take (irqbuf_num (vgic_cpu_if ex_hypctx_fast))
            (irqbuf (vgic_cpu_if ex_hypctx_fast))). irq e \<noteq> IRQ_SCHEDULED"
  "irqbuf_num (vgic_cpu_if ex_hypctx_fast)
     \<le> length (filter lr_inactive (take (ich_lr_num (vgic_cpu_if ex_hypctx_fast))
          (ich_lr_el2 (vgic_cpu_if ex_hypctx_fast))))"
  unfolding ex_hypctx_fast_def hypctx.simps by code_simp+



theorem timer_guard_witness:
  "ICH_LR_EL2_VINTID (ich_lr_el2 (vgic_cpu_if ex_hypctx_fast) ! 0) = 27
   \<and> \<not> lr_inactive (ich_lr_el2 (vgic_cpu_if ex_hypctx_fast) ! 0)
   \<and> vgic_v3_sync_hwstate ex_dist ex_hypctx_fast \<noteq> Panic ''reshuffled''
   \<and> (\<exists>h'. vgic_v3_sync_hwstate ex_dist ex_hypctx_fast = Return h'
          \<and> filter (\<lambda>e. irqtype e = VGIC_IRQ_CLK)
               (take (irqbuf_num (vgic_cpu_if h')) (irqbuf (vgic_cpu_if h')))
             = [ex_irq_clk])"
proof -
  have c: "vgic_cpu_if ex_hypctx_fast = ex_cpu_if_fast"
    by (simp add: ex_hypctx_fast_def)
  have t: "ICH_LR_EL2_VINTID (ich_lr_el2 ex_cpu_if_fast ! 0) = 27
             \<and> \<not> lr_inactive (ich_lr_el2 ex_cpu_if_fast ! 0)"
    by code_simp
  have l: "(0 :: nat) < ich_lr_num ex_cpu_if_fast" by code_simp
  have r: "\<exists>i < ich_lr_num (vgic_cpu_if ex_hypctx_fast).
           ICH_LR_EL2_VINTID (ich_lr_el2 (vgic_cpu_if ex_hypctx_fast) ! i) = 27
           \<and> \<not> lr_inactive (ich_lr_el2 (vgic_cpu_if ex_hypctx_fast) ! i)"
    unfolding c using t l by blast
  have s: "\<forall>e \<in> set (take (irqbuf_num (vgic_cpu_if ex_hypctx_fast))
              (irqbuf (vgic_cpu_if ex_hypctx_fast))).
           irqtype e = VGIC_IRQ_CLK \<longrightarrow> irq e \<noteq> IRQ_SCHEDULED"
    using ex_fast_hyps(3) by blast
  have k: "filter (\<lambda>e. irqtype e = VGIC_IRQ_CLK)
             (take (irqbuf_num ex_cpu_if_fast) (irqbuf ex_cpu_if_fast)) = [ex_irq_clk]"
    by code_simp
  have np: "vgic_v3_sync_hwstate ex_dist ex_hypctx_fast \<noteq> Panic ''reshuffled''"
    using ex_fast_hyps(4) unfolding c
    by (simp add: vgic_v3_sync_hwstate_def Let_def c)
  from timer_guard [OF ex_fast_hyps(1,2) s r, of ex_dist] np t
  show ?thesis unfolding c k by auto
qed


subsection \<open>Disabling the timer\<close>















end
